theory Spec2Isabelle
  imports Complex_Main
begin

section \<open>Python values as they reach the agent core\<close>

text \<open>
  The model's answer is a JSON-decoded Python dictionary (\<open>Dict[str, Any]\<close>). Its values
  are modelled by \<open>pyval\<close>. An \<open>int\<close> is unbounded. A Python \<open>float\<close> is a
  finite double, written as the real number it stands for (NaN and the infinities are not
  in the model, and rounding is not modelled); the theorems that give the value of an
  arithmetic result are therefore stated for numbers of magnitude at most \<open>2^53\<close>,
  which \<open>float\<close> converts exactly and whose sums stay finite. A dictionary is an
  association list in insertion order, read with \<open>map_of\<close>.
\<close>

datatype pyval =
    PNone
  | PBool bool
  | PInt int
  | PFloat real
  | PStr string
  | PList "pyval list"
  | PTuple "pyval list"
  | PDict "(string \<times> pyval) list"

type_synonym pydict = "(string \<times> pyval) list"

datatype pyerr =
  TypeError | ValueError | AttributeError | KeyError | ZeroDivisionError | OverflowError

text \<open>\<open>d.get(k, default)\<close>.\<close>

definition dict_get :: "pydict \<Rightarrow> string \<Rightarrow> pyval \<Rightarrow> pyval" where
  "dict_get d k dflt = (case map_of d k of None \<Rightarrow> dflt | Some v \<Rightarrow> v)"

text \<open>\<open>d[k] = v\<close>: an existing key keeps its place, a new key goes last.\<close>

fun dict_set :: "pydict \<Rightarrow> string \<Rightarrow> pyval \<Rightarrow> pydict" where
  "dict_set [] k v = [(k, v)]"
| "dict_set ((k', v') # d) k v = (if k' = k then (k, v) # d else (k', v') # dict_set d k v)"

text \<open>\<open>v is None\<close>.\<close>

fun is_None :: "pyval \<Rightarrow> bool" where
  "is_None PNone = True"
| "is_None _ = False"

text \<open>\<open>isinstance(v, (int, float))\<close>; \<open>bool\<close> is a subclass of \<open>int\<close>.\<close>

fun is_int_or_float :: "pyval \<Rightarrow> bool" where
  "is_int_or_float (PBool _) = True"
| "is_int_or_float (PInt _) = True"
| "is_int_or_float (PFloat _) = True"
| "is_int_or_float _ = False"

text \<open>\<open>isinstance(v, (list, tuple))\<close> and the items of such a sequence.\<close>

fun is_list_or_tuple :: "pyval \<Rightarrow> bool" where
  "is_list_or_tuple (PList _) = True"
| "is_list_or_tuple (PTuple _) = True"
| "is_list_or_tuple _ = False"

fun items :: "pyval \<Rightarrow> pyval list" where
  "items (PList xs) = xs"
| "items (PTuple xs) = xs"
| "items _ = []"

text \<open>
  The builtin \<open>float(v)\<close>. What it makes of a string is Python's own parser, which is
  not part of the repository: it is the parameter \<open>strf\<close> (\<open>None\<close> where the
  parser raises \<open>ValueError\<close>). \<open>float(None)\<close>, \<open>float([...])\<close> and
  \<open>float({...})\<close> raise \<open>TypeError\<close>. \<open>float(n)\<close> of an \<open>int\<close> raises
  \<open>OverflowError\<close> when \<open>n\<close> rounds (to nearest, ties to even) beyond the largest
  double \<open>2^1024 - 2^971\<close>, that is from the magnitude \<open>2^1024 - 2^970\<close> on.
\<close>

definition float_overflow_at :: int where
  "float_overflow_at = 2 ^ 1024 - 2 ^ 970"

fun py_float :: "(string \<Rightarrow> real option) \<Rightarrow> pyval \<Rightarrow> pyerr + real" where
  "py_float strf PNone = Inl TypeError"
| "py_float strf (PBool b) = Inr (if b then 1 else 0)"
| "py_float strf (PInt n) =
     (if \<bar>n\<bar> \<ge> float_overflow_at then Inl OverflowError else Inr (of_int n))"
| "py_float strf (PFloat r) = Inr r"
| "py_float strf (PStr s) = (case strf s of None \<Rightarrow> Inl ValueError | Some r \<Rightarrow> Inr r)"
| "py_float strf (PList _) = Inl TypeError"
| "py_float strf (PTuple _) = Inl TypeError"
| "py_float strf (PDict _) = Inl TypeError"

text \<open>\<open>return float(a), float(b)\<close>: \<open>a\<close> is converted first.\<close>

definition float_pair :: "(string \<Rightarrow> real option) \<Rightarrow> pyval \<Rightarrow> pyval \<Rightarrow> pyerr + real \<times> real" where
  "float_pair strf a b =
     (case py_float strf a of
        Inl e \<Rightarrow> Inl e
      | Inr x \<Rightarrow> (case py_float strf b of Inl e \<Rightarrow> Inl e | Inr y \<Rightarrow> Inr (x, y)))"

text \<open>\<open>map(float, b)\<close> consumed from the left: the first failing item raises.\<close>

fun float_each :: "(string \<Rightarrow> real option) \<Rightarrow> pyval list \<Rightarrow> pyerr + real list" where
  "float_each strf [] = Inr []"
| "float_each strf (v # vs) =
     (case py_float strf v of
        Inl e \<Rightarrow> Inl e
      | Inr r \<Rightarrow> (case float_each strf vs of Inl e \<Rightarrow> Inl e | Inr rs \<Rightarrow> Inr (r # rs)))"

section \<open>The history window\<close>

text \<open>
  A Python slice \<open>xs[i:]\<close>: a negative start counts from the end and is clamped at the
  front, a start beyond the end gives the empty list.
\<close>

definition py_slice_from :: "int \<Rightarrow> 'a list \<Rightarrow> 'a list" where
  "py_slice_from i xs =
     (let n = int (length xs);
          start = (if i < 0 then max 0 (n + i) else min i n)
      in drop (nat start) xs)"

text \<open>\<open>trim_history\<close> of gui\_main.py.\<close>

definition trim_history :: "'a list \<Rightarrow> int \<Rightarrow> 'a list" where
  "trim_history history keep_last =
     (if int (length history) \<le> keep_last then history
      else py_slice_from (- keep_last) history)"

text \<open>\<open>trim_history\<close> of gui\_mission\_control.py.\<close>

definition trim_history_mc :: "'a list \<Rightarrow> int \<Rightarrow> 'a list" where
  "trim_history_mc history keep_last =
     (if int (length history) > keep_last then py_slice_from (- keep_last) history
      else history)"

section \<open>The coordinate extractor\<close>

text \<open>
  \<open>_center_from_bbox\<close>: \<open>x1, y1, x2, y2 = map(float, b)\<close> converts the items one by
  one while unpacking (at most one item beyond the fourth is looked at) and raises
  \<open>ValueError\<close> when there are not exactly four.
\<close>

definition center_from_bbox :: "(string \<Rightarrow> real option) \<Rightarrow> pyval list \<Rightarrow> pyerr + real \<times> real" where
  "center_from_bbox strf b =
     (case float_each strf (take 5 b) of
        Inl e \<Rightarrow> Inl e
      | Inr [x1, y1, x2, y2] \<Rightarrow> Inr ((x1 + x2) / 2, (y1 + y2) / 2)
      | Inr _ \<Rightarrow> Inl ValueError)"

text \<open>
  \<open>(x1, y1), (x2, y2) = pos\<close> followed by
  \<open>return (float(x1) + float(x2)) / 2.0, (float(y1) + float(y2)) / 2.0\<close>, for a
  \<open>pos\<close> already known to hold two sequences of two items each.
\<close>

definition center_of_pairs :: "(string \<Rightarrow> real option) \<Rightarrow> pyval list \<Rightarrow> pyerr + real \<times> real" where
  "center_of_pairs strf pos =
     (let p = items (pos ! 0); q = items (pos ! 1)
      in case float_each strf [p ! 0, q ! 0, p ! 1, q ! 1] of
           Inl e \<Rightarrow> Inl e
         | Inr [x1, x2, y1, y2] \<Rightarrow> Inr ((x1 + x2) / 2, (y1 + y2) / 2)
         | Inr _ \<Rightarrow> Inl ValueError)"

definition is_pair_seq :: "pyval \<Rightarrow> bool" where
  "is_pair_seq t = (is_list_or_tuple t \<and> length (items t) = 2)"

text \<open>\<open>_extract_xy\<close> of gui\_main.py.\<close>

definition extract_xy :: "(string \<Rightarrow> real option) \<Rightarrow> pydict \<Rightarrow> pyerr + real \<times> real" where
  "extract_xy strf out =
     (let x = dict_get out ''x'' (PFloat 0.5);
          y = dict_get out ''y'' (PFloat 0.5);
          pos = dict_get out ''position'' PNone
      in
        if \<not> is_None pos \<and> is_list_or_tuple pos
           \<and> length (items pos) = 2 \<and> list_all is_int_or_float (items pos)
        then float_pair strf (items pos ! 0) (items pos ! 1)
        else if \<not> is_None pos \<and> is_list_or_tuple pos
           \<and> length (items pos) = 4 \<and> list_all is_int_or_float (items pos)
        then center_from_bbox strf (items pos)
        else if \<not> is_None pos \<and> is_list_or_tuple pos
           \<and> length (items pos) = 2 \<and> list_all is_pair_seq (items pos)
        then center_of_pairs strf (items pos)
        else if is_list_or_tuple x \<and> length (items x) = 2 \<and> list_all is_int_or_float (items x)
        then float_pair strf (items x ! 0) (items x ! 1)
        else if is_list_or_tuple x \<and> length (items x) = 4 \<and> list_all is_int_or_float (items x)
        then center_from_bbox strf (items x)
        else if is_list_or_tuple y \<and> length (items y) = 2 \<and> list_all is_int_or_float (items y)
        then float_pair strf (items y ! 0) (items y ! 1)
        else if is_list_or_tuple y \<and> length (items y) = 4 \<and> list_all is_int_or_float (items y)
        then center_from_bbox strf (items y)
        else float_pair strf x y)"

text \<open>
  \<open>_extract_xy\<close> of gui\_mission\_control.py: the \<open>position\<close> rules are the same,
  the rules for a list in \<open>x\<close> or \<open>y\<close> test the length only.
\<close>

definition extract_xy_mc :: "(string \<Rightarrow> real option) \<Rightarrow> pydict \<Rightarrow> pyerr + real \<times> real" where
  "extract_xy_mc strf out =
     (let x = dict_get out ''x'' (PFloat 0.5);
          y = dict_get out ''y'' (PFloat 0.5);
          pos = dict_get out ''position'' PNone
      in
        if \<not> is_None pos \<and> is_list_or_tuple pos
           \<and> length (items pos) = 2 \<and> list_all is_int_or_float (items pos)
        then float_pair strf (items pos ! 0) (items pos ! 1)
        else if \<not> is_None pos \<and> is_list_or_tuple pos
           \<and> length (items pos) = 4 \<and> list_all is_int_or_float (items pos)
        then center_from_bbox strf (items pos)
        else if \<not> is_None pos \<and> is_list_or_tuple pos
           \<and> length (items pos) = 2 \<and> list_all is_pair_seq (items pos)
        then center_of_pairs strf (items pos)
        else if is_list_or_tuple x \<and> length (items x) = 2
        then float_pair strf (items x ! 0) (items x ! 1)
        else if is_list_or_tuple x \<and> length (items x) = 4
        then center_from_bbox strf (items x)
        else if is_list_or_tuple y \<and> length (items y) = 2
        then float_pair strf (items y ! 0) (items y ! 1)
        else if is_list_or_tuple y \<and> length (items y) = 4
        then center_from_bbox strf (items y)
        else float_pair strf x y)"

text \<open>
  For stating what the extractor returns: the real number a Python number stands for, the
  numbers \<open>float\<close> converts without raising, the numbers of magnitude at most
  \<open>2^53\<close>, the shapes of \<open>position\<close> that the three \<open>position\<close> rules accept,
  and a list of two or four numbers as the rules for \<open>x\<close> and \<open>y\<close> of gui\_main.py
  accept it.
\<close>

fun num_of :: "pyval \<Rightarrow> real" where
  "num_of (PBool b) = (if b then 1 else 0)"
| "num_of (PInt n) = of_int n"
| "num_of (PFloat r) = r"
| "num_of _ = 0"

fun float_convertible :: "pyval \<Rightarrow> bool" where
  "float_convertible (PBool _) = True"
| "float_convertible (PInt n) = (\<bar>n\<bar> < float_overflow_at)"
| "float_convertible (PFloat _) = True"
| "float_convertible _ = False"

definition coord_number :: "pyval \<Rightarrow> bool" where
  "coord_number v = (is_int_or_float v \<and> \<bar>num_of v\<bar> \<le> 2 ^ 53)"

definition recognised_position :: "pyval \<Rightarrow> bool" where
  "recognised_position pos =
     (\<not> is_None pos \<and> is_list_or_tuple pos
      \<and> (length (items pos) = 2 \<and> list_all is_int_or_float (items pos)
         \<or> length (items pos) = 4 \<and> list_all is_int_or_float (items pos)
         \<or> length (items pos) = 2 \<and> list_all is_pair_seq (items pos)))"

definition number_seq :: "pyval \<Rightarrow> bool" where
  "number_seq v =
     (is_list_or_tuple v \<and> (length (items v) = 2 \<or> length (items v) = 4)
      \<and> list_all is_int_or_float (items v))"

section \<open>The viewport mapper and the input event translator\<close>

text \<open>
  The fields of \<open>VMView\<close> that the pointer handlers read and write. \<open>_pm\<close> is
  \<open>None\<close> until a frame is set, \<open>_draw_rect\<close> is \<open>None\<close> until the first paint;
  a pixmap object and a four-element tuple are both truthy, so \<open>not self._pm\<close> and
  \<open>not self._draw_rect\<close> test for \<open>None\<close>.
\<close>

record 'p vmview =
  pm :: "'p option"
  draw_rect :: "(int \<times> int \<times> int \<times> int) option"
  input_enabled :: bool
  pressed_btn :: "int option"
  last_move_ts :: real

text \<open>\<open>VMView._pos_to_norm\<close> of gui\_main.py.\<close>

definition pos_to_norm :: "('p, 'z) vmview_scheme \<Rightarrow> int \<Rightarrow> int \<Rightarrow> (real \<times> real) option" where
  "pos_to_norm v x y =
     (if pm v = None \<or> draw_rect v = None then None
      else case the (draw_rect v) of (dx, dy, dw, dh) \<Rightarrow>
        if dw \<le> 0 \<or> dh \<le> 0 then None
        else if x < dx \<or> y < dy \<or> x \<ge> dx + dw \<or> y \<ge> dy + dh then None
        else let nx = real_of_int (x - dx) / real_of_int dw;
                 ny = real_of_int (y - dy) / real_of_int dh
             in Some (nx, ny))"

text \<open>\<open>VMView._pos_to_norm\<close> of gui\_mission\_control.py.\<close>

definition pos_to_norm_mc :: "('p, 'z) vmview_scheme \<Rightarrow> int \<Rightarrow> int \<Rightarrow> (real \<times> real) option" where
  "pos_to_norm_mc v x y =
     (if pm v = None \<or> draw_rect v = None then None
      else case the (draw_rect v) of (dx, dy, dw, dh) \<Rightarrow>
        if dw \<le> 0 \<or> dh \<le> 0 then None
        else if x < dx \<or> y < dy \<or> x \<ge> dx + dw \<or> y \<ge> dy + dh then None
        else Some (real_of_int (x - dx) / real_of_int dw, real_of_int (y - dy) / real_of_int dh))"

text \<open>\<open>int(r)\<close> on a float truncates towards zero.\<close>

definition py_int :: "real \<Rightarrow> int" where
  "py_int r = (if r \<ge> 0 then \<lfloor>r\<rfloor> else \<lceil>r\<rceil>)"

datatype mouse_button = LeftButton | RightButton | MiddleButton | OtherButton nat

text \<open>
  The button numbers of the \<open>if\<close>/\<open>elif\<close> chain of gui\_main.py (and of
  \<open>btn_map\<close> in gui\_mission\_control.py); any other button makes the handler return.
\<close>

fun button_code :: "mouse_button \<Rightarrow> int option" where
  "button_code LeftButton = Some 1"
| "button_code RightButton = Some 3"
| "button_code MiddleButton = Some 2"
| "button_code (OtherButton _) = None"

text \<open>The calls the handlers make on the sandbox.\<close>

datatype sandbox_call =
    Mouse_move_norm real real
  | Mouse_down int
  | Mouse_up int
  | Drag_to_norm real real int

text \<open>
  The pointer events: a press and a move carry the event position
  (\<open>e.position()\<close>, a pair of floats), a press also its button, a move also the
  value \<open>time.monotonic()\<close> returns in the handler.
\<close>

datatype pointer_event =
    Press real real mouse_button
  | Move real real real
  | Release

definition mousePressEvent ::
  "('p, 'z) vmview_scheme \<Rightarrow> real \<Rightarrow> real \<Rightarrow> mouse_button \<Rightarrow> ('p, 'z) vmview_scheme \<times> sandbox_call list" where
  "mousePressEvent v ex ey button =
     (if \<not> input_enabled v then (v, [])
      else case pos_to_norm v (py_int ex) (py_int ey) of
        None \<Rightarrow> (v, [])
      | Some (nx, ny) \<Rightarrow>
          (case button_code button of
             None \<Rightarrow> (v, [])
           | Some btn \<Rightarrow> (v\<lparr>pressed_btn := Some btn\<rparr>, [Mouse_move_norm nx ny, Mouse_down btn])))"

definition mouseMoveEvent ::
  "('p, 'z) vmview_scheme \<Rightarrow> real \<Rightarrow> real \<Rightarrow> real \<Rightarrow> ('p, 'z) vmview_scheme \<times> sandbox_call list" where
  "mouseMoveEvent v ex ey now =
     (if \<not> input_enabled v then (v, [])
      else case pos_to_norm v (py_int ex) (py_int ey) of
        None \<Rightarrow> (v, [])
      | Some (nx, ny) \<Rightarrow>
          if now - last_move_ts v < 0.03 then (v, [])
          else (case pressed_btn v of
                  Some btn \<Rightarrow> (v\<lparr>last_move_ts := now\<rparr>, [Drag_to_norm nx ny btn])
                | None \<Rightarrow> (v\<lparr>last_move_ts := now\<rparr>, [Mouse_move_norm nx ny])))"

definition mouseReleaseEvent ::
  "('p, 'z) vmview_scheme \<Rightarrow> ('p, 'z) vmview_scheme \<times> sandbox_call list" where
  "mouseReleaseEvent v =
     (if \<not> input_enabled v then (v, [])
      else case pressed_btn v of
        None \<Rightarrow> (v, [])
      | Some btn \<Rightarrow> (v\<lparr>pressed_btn := None\<rparr>, [Mouse_up btn]))"

fun handle_event ::
  "('p, 'z) vmview_scheme \<Rightarrow> pointer_event \<Rightarrow> ('p, 'z) vmview_scheme \<times> sandbox_call list" where
  "handle_event v (Press ex ey button) = mousePressEvent v ex ey button"
| "handle_event v (Move ex ey now) = mouseMoveEvent v ex ey now"
| "handle_event v Release = mouseReleaseEvent v"

text \<open>
  Qt delivers the events one after the other; the log pairs every event with the sandbox
  calls its handler made.
\<close>

fun deliver ::
  "('p, 'z) vmview_scheme \<Rightarrow> pointer_event list \<Rightarrow> (pointer_event \<times> sandbox_call list) list" where
  "deliver v [] = []"
| "deliver v (ev # evs) = (ev, snd (handle_event v ev)) # deliver (fst (handle_event v ev)) evs"

definition calls_of :: "(pointer_event \<times> sandbox_call list) list \<Rightarrow> sandbox_call list" where
  "calls_of lg = concat (map snd lg)"




section \<open>Down-scaling the captured frame\<close>

text \<open>
  \<open>resize_keep_aspect\<close> of vision.py. The image library is a parameter: \<open>size_of\<close>
  is \<open>img.size\<close> and \<open>resize\<close> is \<open>img.resize(size, LANCZOS)\<close>. The true division
  \<open>h * max_dim / w\<close> is taken exactly and raises on a zero divisor.
\<close>

definition resize_keep_aspect ::
  "('i \<Rightarrow> int \<times> int) \<Rightarrow> ('i \<Rightarrow> int \<times> int \<Rightarrow> pyerr + 'i) \<Rightarrow> 'i \<Rightarrow> int \<Rightarrow> pyerr + 'i" where
  "resize_keep_aspect size_of resize img max_dim =
     (case size_of img of (w, h) \<Rightarrow>
        if w \<le> max_dim \<and> h \<le> max_dim then Inr img
        else if w \<ge> h then
          (if w = 0 then Inl ZeroDivisionError
           else resize img (max_dim, py_int (real_of_int (h * max_dim) / real_of_int w)))
        else
          (if h = 0 then Inl ZeroDivisionError
           else resize img (py_int (real_of_int (w * max_dim) / real_of_int h), max_dim)))"

section \<open>The objective execution loop\<close>

text \<open>
  \<open>str.upper()\<close>, on the ASCII letters (action names are ASCII; other characters are
  left as they are).
\<close>

definition py_upper_char :: "char \<Rightarrow> char" where
  "py_upper_char c =
     (let n = (of_char c :: nat) in if 97 \<le> n \<and> n \<le> 122 then char_of (n - 32) else c)"

definition py_upper :: "string \<Rightarrow> string" where
  "py_upper s = map py_upper_char s"

text \<open>Truth value of a Python object, as \<open>or\<close> tests it.\<close>

fun truthy :: "pyval \<Rightarrow> bool" where
  "truthy PNone = False"
| "truthy (PBool b) = b"
| "truthy (PInt n) = (n \<noteq> 0)"
| "truthy (PFloat r) = (r \<noteq> 0)"
| "truthy (PStr s) = (s \<noteq> [])"
| "truthy (PList xs) = (xs \<noteq> [])"
| "truthy (PTuple xs) = (xs \<noteq> [])"
| "truthy (PDict d) = (d \<noteq> [])"

text \<open>
  \<open>(out.get("action") or dflt).upper()\<close>: a truthy value that is not a string has no
  \<open>upper\<close> and raises \<open>AttributeError\<close>.
\<close>

definition action_of :: "pydict \<Rightarrow> string \<Rightarrow> pyerr + string" where
  "action_of out dflt =
     (let v = dict_get out ''action'' PNone
      in if truthy v then (case v of PStr s \<Rightarrow> Inr (py_upper s) | _ \<Rightarrow> Inl AttributeError)
         else Inr (py_upper dflt))"

definition pointer_kinds :: "string list" where
  "pointer_kinds = [''CLICK'', ''DOUBLE_CLICK'', ''RIGHT_CLICK'']"

text \<open>The entry \<open>{"action": "INVALID_COORDS", "raw": out}\<close>.\<close>

definition invalid_coords :: "pydict \<Rightarrow> pydict" where
  "invalid_coords out = [(''action'', PStr ''INVALID_COORDS''), (''raw'', PDict out)]"

text \<open>
  The collaborators of the loop, over a state \<open>'w\<close> of everything outside it (sandbox,
  screenshot file, model, stop flag), and the configuration values it reads.
  \<open>validate_xy\<close> and \<open>should_stop_on_repeat\<close> return a pair whose second
  component is only logged; the model keeps the first. The collaborators are taken to
  return; an exception of theirs would leave the loop as it leaves the source.
\<close>

record 'w agent_env =
  stop_is_set :: "'w \<Rightarrow> bool"
  capture :: "'w \<Rightarrow> 'w"
  ask_next_action :: "pydict list \<Rightarrow> 'w \<Rightarrow> pydict \<times> 'w"
  validate_xy :: "real \<Rightarrow> real \<Rightarrow> bool"
  should_stop_on_repeat :: "pydict list \<Rightarrow> pydict \<Rightarrow> bool"
  execute_action :: "pydict \<Rightarrow> 'w \<Rightarrow> 'w"
  float_str :: "string \<Rightarrow> real option"
  MODEL_RETRY :: int
  MAX_STEPS :: int

text \<open>
  Modelled from the spec: \<open>validate_xy\<close> of src/guards.py, which is not among the
  sources. The spec's validator rejects a coordinate outside \<open>[0,1]\<times>[0,1]\<close> and accepts
  every other; its NaN and non-numeric cases do not arise on real numbers.
\<close>

definition validate_xy_spec :: "real \<Rightarrow> real \<Rightarrow> bool" where
  "validate_xy_spec x y = (0 \<le> x \<and> x \<le> 1 \<and> 0 \<le> y \<and> y \<le> 1)"

text \<open>
  What the loop does to the outside, in order: the screenshots, the model queries (with
  the trimmed history they were given), the previews and the executed actions.
\<close>

datatype agent_call =
    Capture
  | Ask "pydict list"
  | Preview int real real
  | Execute pydict

record 'w loop_state =
  world :: 'w
  history :: "pydict list"
  step :: int
  trace :: "agent_call list"

datatype run_result = Returned string | Raised pyerr

text \<open>
  The \<open>for attempt in range(MODEL_RETRY + 1)\<close> loop, with the number of attempts
  left. \<open>Exhausted\<close> is leaving the loop with \<open>out is None\<close>.
\<close>

datatype attempt = Bitti | Accepted pydict | Exhausted | Failed pyerr

fun ask_loop ::
  "'w agent_env \<Rightarrow> ((string \<Rightarrow> real option) \<Rightarrow> pydict \<Rightarrow> pyerr + real \<times> real) \<Rightarrow> nat
     \<Rightarrow> 'w loop_state \<Rightarrow> attempt \<times> 'w loop_state" where
  "ask_loop e extract 0 st = (Exhausted, st)"
| "ask_loop e extract (Suc n) st =
     (case ask_next_action e (trim_history (history st) 6) (world st) of (out, w') \<Rightarrow>
        let st1 = st\<lparr>world := w', trace := trace st @ [Ask (trim_history (history st) 6)]\<rparr>
        in case action_of out ''NOOP'' of
             Inl err \<Rightarrow> (Failed err, st1)
           | Inr action \<Rightarrow>
               if action = ''BITTI'' then (Bitti, st1)
               else if action \<in> set pointer_kinds then
                 (case extract (float_str e) out of
                    Inl err \<Rightarrow> (Failed err, st1)
                  | Inr (x, y) \<Rightarrow>
                      if validate_xy e x y
                      then (Accepted (dict_set (dict_set out ''x'' (PFloat x)) ''y'' (PFloat y)), st1)
                      else ask_loop e extract n (st1\<lparr>history := history st1 @ [invalid_coords out]\<rparr>))
               else (Accepted out, st1))"

text \<open>
  \<open>draw_preview(img, float(out["x"]), float(out["y"]), preview_path)\<close>: the subscripts
  raise \<open>KeyError\<close> on a missing key.
\<close>

definition preview :: "(string \<Rightarrow> real option) \<Rightarrow> pydict \<Rightarrow> int \<Rightarrow> pyerr + agent_call list" where
  "preview strf out i =
     (case map_of out ''x'' of
        None \<Rightarrow> Inl KeyError
      | Some vx \<Rightarrow>
          (case py_float strf vx of
             Inl err \<Rightarrow> Inl err
           | Inr x \<Rightarrow>
               (case map_of out ''y'' of
                  None \<Rightarrow> Inl KeyError
                | Some vy \<Rightarrow>
                    (case py_float strf vy of
                       Inl err \<Rightarrow> Inl err
                     | Inr y \<Rightarrow> Inr [Preview i x y]))))"

text \<open>
  One pass through the body of \<open>while True\<close>, up to and including \<open>step += 1\<close>:
  either the run ends there, or the loop goes on to the test of \<open>MAX_STEPS\<close>.
\<close>

datatype 'w iteration = Stop run_result "'w loop_state" | Continue "'w loop_state"

definition loop_body ::
  "'w agent_env \<Rightarrow> ((string \<Rightarrow> real option) \<Rightarrow> pydict \<Rightarrow> pyerr + real \<times> real)
     \<Rightarrow> 'w loop_state \<Rightarrow> 'w iteration" where
  "loop_body e extract st =
     (if stop_is_set e (world st) then Stop (Returned ''STOPPED'') st
      else
        let st1 = st\<lparr>world := capture e (world st), trace := trace st @ [Capture]\<rparr>
        in case ask_loop e extract (nat (MODEL_RETRY e + 1)) st1 of
             (Bitti, st2) \<Rightarrow> Stop (Returned ''DONE(BITTI)'') st2
           | (Failed err, st2) \<Rightarrow> Stop (Raised err) st2
           | (Exhausted, st2) \<Rightarrow> Stop (Returned ''ERROR(no valid action)'') st2
           | (Accepted out, st2) \<Rightarrow>
               if should_stop_on_repeat e (history st2) out
               then Stop (Returned ''DONE(repeat-guard)'') st2
               else
                 (case action_of out [] of
                    Inl err \<Rightarrow> Stop (Raised err) st2
                  | Inr action \<Rightarrow>
                      (case (if action \<in> set pointer_kinds
                             then preview (float_str e) out (step st2) else Inr []) of
                         Inl err \<Rightarrow> Stop (Raised err) st2
                       | Inr pv \<Rightarrow>
                           Continue (st2\<lparr>world := execute_action e out (world st2),
                                          trace := trace st2 @ pv @ [Execute out],
                                          history := history st2 @ [out],
                                          step := step st2 + 1\<rparr>))))"

lemma ask_loop_step: "ask_loop e extract n st = (r, st') \<Longrightarrow> step st' = step st"
proof (induction n arbitrary: st)
  case 0
  then show ?case by simp
next
  case (Suc n)
  then show ?case
    by (auto split: prod.splits sum.splits if_splits simp: Let_def)
qed

lemma loop_body_step: "loop_body e extract st = Continue st' \<Longrightarrow> step st' = step st + 1"
  by (auto simp: loop_body_def Let_def dest!: ask_loop_step
      split: if_splits prod.splits attempt.splits sum.splits)

text \<open>
  The \<open>while True\<close> loop. Every pass that does not end the run adds one to
  \<open>step\<close>, and the run ends once \<open>step\<close> exceeds \<open>MAX_STEPS\<close>.
\<close>

function run_loop ::
  "'w agent_env \<Rightarrow> ((string \<Rightarrow> real option) \<Rightarrow> pydict \<Rightarrow> pyerr + real \<times> real)
     \<Rightarrow> 'w loop_state \<Rightarrow> run_result \<times> 'w loop_state" where
  "run_loop e extract st =
     (case loop_body e extract st of
        Stop r st' \<Rightarrow> (r, st')
      | Continue st' \<Rightarrow>
          if step st' > MAX_STEPS e then (Returned ''DONE(max-steps)'', st')
          else run_loop e extract st')"
  by pat_completeness auto
termination
proof (relation "measure (\<lambda>(e, extract, st). nat (MAX_STEPS e + 1 - step st))")
  show "wf (measure (\<lambda>(e, extract, st). nat (MAX_STEPS e + 1 - step st)))"
    by simp
next
  fix e :: "'w agent_env"
  fix ext :: "(string \<Rightarrow> real option) \<Rightarrow> pydict \<Rightarrow> pyerr + real \<times> real"
  fix st st' :: "'w loop_state"
  assume "loop_body e ext st = Continue st'" and "\<not> MAX_STEPS e < step st'"
  then show "((e, ext, st'), (e, ext, st))
      \<in> measure (\<lambda>(e, extract, st). nat (MAX_STEPS e + 1 - step st))"
    using loop_body_step [of e ext st st'] by simp
qed

declare run_loop.simps [simp del]

text \<open>
  \<open>run_single_command\<close> of gui\_main.py: \<open>history = []\<close>, \<open>step = 1\<close>, and the
  extractor of that file.
\<close>

definition run_single_command :: "'w agent_env \<Rightarrow> 'w \<Rightarrow> run_result \<times> 'w loop_state" where
  "run_single_command e w =
     run_loop e extract_xy \<lparr>world = w, history = [], step = 1, trace = []\<rparr>"

text \<open>
  \<open>run_single_command\<close> of gui\_mission\_control.py. It emits signals and counts
  clicks and typed texts besides, which change neither the calls above nor the result,
  and it uses the extractor of its own file.
\<close>

definition run_single_command_mc :: "'w agent_env \<Rightarrow> 'w \<Rightarrow> run_result \<times> 'w loop_state" where
  "run_single_command_mc e w =
     run_loop e extract_xy_mc \<lparr>world = w, history = [], step = 1, trace = []\<rparr>"

section \<open>Notions for the properties of the loop\<close>

text \<open>
  For stating what the retry loop does: a model query among the calls, a history entry
  tagged \<open>INVALID_COORDS\<close>, and the effect of the retry loop run with \<open>m\<close> attempts:
  it only adds model queries to the calls, at most \<open>m\<close>, and only tagged entries to the
  history, one for each query but the last, or for each query when the attempts run out.
\<close>

fun is_Ask :: "agent_call \<Rightarrow> bool" where
  "is_Ask (Ask _) = True"
| "is_Ask _ = False"

definition is_invalid_entry :: "pydict \<Rightarrow> bool" where
  "is_invalid_entry h = (map_of h ''action'' = Some (PStr ''INVALID_COORDS''))"

definition retry_effect :: "nat \<Rightarrow> 'w loop_state \<Rightarrow> attempt \<Rightarrow> 'w loop_state \<Rightarrow> bool" where
  "retry_effect m st r st' =
     (\<exists>asks hs. trace st' = trace st @ asks \<and> list_all is_Ask asks \<and> length asks \<le> m
        \<and> history st' = history st @ hs \<and> list_all is_invalid_entry hs
        \<and> length asks = length hs + (if r = Exhausted then 0 else 1)
        \<and> (r = Exhausted \<longrightarrow> length asks = m)
        \<and> step st' = step st)"

text \<open>
  A scripted model for concrete runs: the outside world is the list of answers the model
  has still to give (an empty mapping once the list is used up), the stop flag is never
  set, the repeat guard never fires, and the validator is the one of the spec.
\<close>

definition scripted :: "int \<Rightarrow> int \<Rightarrow> (pydict list) agent_env" where
  "scripted retry max_steps =
     \<lparr>stop_is_set = (\<lambda>w. False),
      capture = (\<lambda>w. w),
      ask_next_action = (\<lambda>h w. (case w of [] \<Rightarrow> [] | out # _ \<Rightarrow> out, tl w)),
      validate_xy = validate_xy_spec,
      should_stop_on_repeat = (\<lambda>h out. False),
      execute_action = (\<lambda>out w. w),
      float_str = Map.empty,
      MODEL_RETRY = retry,
      MAX_STEPS = max_steps\<rparr>"


fun executed :: "agent_call list \<Rightarrow> pydict list" where
  "executed [] = []"
| "executed (Execute out # cs) = out # executed cs"
| "executed (_ # cs) = executed cs"

text \<open>
  For the actuation boundary: an action of a pointer kind, as the loop tests it before the
  preview and the execution; a point of the unit square; an action whose \<open>x\<close> and
  \<open>y\<close> are floats that the validator accepts; and a sandbox call whose point, if it
  carries one, lies in the unit square.
\<close>

definition is_pointer_action :: "pydict \<Rightarrow> bool" where
  "is_pointer_action out =
     (case action_of out [] of Inl _ \<Rightarrow> False | Inr a \<Rightarrow> a \<in> set pointer_kinds)"

definition in_unit_square :: "real \<Rightarrow> real \<Rightarrow> bool" where
  "in_unit_square x y = (0 \<le> x \<and> x \<le> 1 \<and> 0 \<le> y \<and> y \<le> 1)"

definition validated_point :: "'w agent_env \<Rightarrow> pydict \<Rightarrow> bool" where
  "validated_point e out =
     (case map_of out ''x'' of
        Some (PFloat x) \<Rightarrow>
          (case map_of out ''y'' of Some (PFloat y) \<Rightarrow> validate_xy e x y | _ \<Rightarrow> False)
      | _ \<Rightarrow> False)"

definition safe_action :: "'w agent_env \<Rightarrow> pydict \<Rightarrow> bool" where
  "safe_action e out = (is_pointer_action out \<longrightarrow> validated_point e out)"

fun call_in_range :: "sandbox_call \<Rightarrow> bool" where
  "call_in_range (Mouse_move_norm nx ny) = in_unit_square nx ny"
| "call_in_range (Drag_to_norm nx ny _) = in_unit_square nx ny"
| "call_in_range _ = True"

section \<open>Properties of the history window\<close>

lemma trim_history_mc_eq: "trim_history_mc h k = trim_history h k"
  by (simp add: trim_history_mc_def trim_history_def)

text \<open>
  For a window of at least one entry the function keeps the trailing \<open>k\<close> entries in
  their order, and trimming twice is trimming once.
\<close>

lemma trim_history_positive:
  assumes "1 \<le> k"
  shows "trim_history h k = drop (length h - nat k) h"
    and "length (trim_history h k) = min (length h) (nat k)"
    and "trim_history (trim_history h k) k = trim_history h k"
proof -
  show eq: "trim_history h k = drop (length h - nat k) h" for h :: "'a list"
    using assms
    by (auto simp: trim_history_def py_slice_from_def Let_def nat_diff_distrib' max_def
        intro: arg_cong [where f = "\<lambda>n. drop n h"])
  show len: "length (trim_history h k) = min (length h) (nat k)" for h :: "'a list"
    using assms unfolding eq by auto
  show "trim_history (trim_history h k) k = trim_history h k"
  proof -
    have "int (length (trim_history h k)) \<le> k"
      using assms unfolding len [of h] by linarith
    then show ?thesis
      by (simp add: trim_history_def [of "trim_history h k"])
  qed
qed

text \<open>
  Claim C8: for every history \<open>h\<close> and window \<open>k\<close>, \<open>trim_history h k\<close> is the
  trailing \<open>min (length h) k\<close> entries of \<open>h\<close>. With the window \<open>0\<close> the slice
  \<open>history[-0:]\<close> is the whole list: both copies return a history of one entry
  unchanged, where the claim asks for no entry.
\<close>

theorem trim_history_zero_window:
  "trim_history [[(''action'', PStr ''WAIT'')]] 0 = [[(''action'', PStr ''WAIT'')]]
   \<and> trim_history_mc [[(''action'', PStr ''WAIT'')]] 0 = [[(''action'', PStr ''WAIT'')]]
   \<and> length (trim_history [[(''action'', PStr ''WAIT'')]] 0)
       \<noteq> min (length [[(''action'', PStr ''WAIT'')]]) (nat 0)"
  by (simp add: trim_history_def trim_history_mc_def py_slice_from_def)

section \<open>Properties of the viewport mapper\<close>

text \<open>
  Claim C6: for a draw rectangle \<open>(dx, dy, dw, dh)\<close> with \<open>dw > 0\<close> and \<open>dh > 0\<close>
  and every display pixel \<open>(px, py)\<close>, \<open>_pos_to_norm\<close> returns \<open>None\<close> when no
  frame is set or the pixel lies outside \<open>[dx, dx + dw) \<times> [dy, dy + dh)\<close>, and the point
  \<open>((px - dx) / dw, (py - dy) / dh)\<close> otherwise; the two copies agree.
\<close>

theorem pos_to_norm_inside_or_none:
  assumes "draw_rect v = Some (dx, dy, dw, dh)" and "0 < dw" and "0 < dh"
  shows "pos_to_norm v px py =
           (if pm v = None \<or> px < dx \<or> dx + dw \<le> px \<or> py < dy \<or> dy + dh \<le> py then None
            else Some (real_of_int (px - dx) / real_of_int dw,
                       real_of_int (py - dy) / real_of_int dh))
         \<and> pos_to_norm_mc v px py = pos_to_norm v px py"
  using assms by (auto simp: pos_to_norm_def pos_to_norm_mc_def Let_def)

theorem pos_to_norm_inside_or_none_witness:
  "pos_to_norm \<lparr>pm = Some (), draw_rect = Some (10, 20, 100, 50), input_enabled = True,
                 pressed_btn = None, last_move_ts = 0\<rparr> 20 30 = Some (1 / 10, 1 / 5)
   \<and> pos_to_norm \<lparr>pm = Some (), draw_rect = Some (10, 20, 100, 50), input_enabled = True,
                 pressed_btn = None, last_move_ts = 0\<rparr> 110 30 = None
   \<and> pos_to_norm_mc \<lparr>pm = Some (), draw_rect = Some (10, 20, 100, 50), input_enabled = True,
                 pressed_btn = None, last_move_ts = 0\<rparr> 9 30 = None"
  using pos_to_norm_inside_or_none [of "\<lparr>pm = Some (), draw_rect = Some (10, 20, 100, 50),
          input_enabled = True, pressed_btn = None, last_move_ts = 0\<rparr>" 10 20 100 50 20 30]
        pos_to_norm_inside_or_none [of "\<lparr>pm = Some (), draw_rect = Some (10, 20, 100, 50),
          input_enabled = True, pressed_btn = None, last_move_ts = 0\<rparr>" 10 20 100 50 110 30]
        pos_to_norm_inside_or_none [of "\<lparr>pm = Some (), draw_rect = Some (10, 20, 100, 50),
          input_enabled = True, pressed_btn = None, last_move_ts = 0\<rparr>" 10 20 100 50 9 30]
  by simp

section \<open>Properties of the input event translator\<close>









section \<open>Properties of the down-scaling\<close>

lemma resize_keep_aspect_small:
  "size_of img = (w, h) \<Longrightarrow> w \<le> max_dim \<Longrightarrow> h \<le> max_dim \<Longrightarrow>
     resize_keep_aspect size_of resize img max_dim = Inr img"
  by (simp add: resize_keep_aspect_def)

text \<open>
  Claim C10: for an image with both dimensions at least 1 and \<open>max_dim \<ge> 1\<close>,
  \<open>resize_keep_aspect\<close> returns an image with both dimensions at least 1 and at most
  \<open>max_dim\<close>. Here an image is its size and the library's \<open>resize\<close> answers with
  the size it was asked for: for a frame of 1000 by 1 and \<open>max_dim = 10\<close> the function
  asks for 10 by \<open>int(1 * 10 / 1000) = 0\<close>.
\<close>

theorem resize_keep_aspect_flat_image:
  "resize_keep_aspect id (\<lambda>img sz. Inr sz) (1000, 1) 10 = Inr (10, 0)"
  by (simp add: resize_keep_aspect_def py_int_def)

section \<open>Properties of the coordinate extractor\<close>

lemma float_overflow_at_large: "2 ^ 53 < float_overflow_at"
proof -
  have "(2::int) ^ 1024 = 2 ^ 54 * 2 ^ 970"
    by (simp flip: power_add)
  then have "float_overflow_at = (2 ^ 54 - 1) * 2 ^ 970"
    by (simp add: float_overflow_at_def algebra_simps)
  moreover have "(2::int) ^ 53 * 1 \<le> (2 ^ 54 - 1) * 2 ^ 970"
    by (rule mult_mono) simp_all
  moreover have "(2::int) ^ 53 * 1 \<noteq> (2 ^ 54 - 1) * 2 ^ 970"
    by simp
  ultimately show ?thesis by linarith
qed

lemma coord_number_convertible: "coord_number v \<Longrightarrow> float_convertible v"
proof (cases v)
  case (PInt n)
  assume "coord_number v"
  then have "\<bar>real_of_int n\<bar> \<le> 2 ^ 53"
    using PInt by (simp add: coord_number_def)
  then have "\<bar>n\<bar> \<le> 2 ^ 53"
    by (metis of_int_abs of_int_le_iff of_int_numeral of_int_power)
  then show ?thesis
    using PInt float_overflow_at_large by simp
qed (auto simp: coord_number_def)

lemma coord_number_is_number: "coord_number v \<Longrightarrow> is_int_or_float v"
  by (simp add: coord_number_def)

lemma py_float_number: "float_convertible v \<Longrightarrow> py_float strf v = Inr (num_of v)"
  by (cases v) auto

lemma convertible_is_number: "float_convertible v \<Longrightarrow> is_int_or_float v"
  by (cases v) auto

lemma float_pair_numbers:
  "float_convertible a \<Longrightarrow> float_convertible b \<Longrightarrow>
     float_pair strf a b = Inr (num_of a, num_of b)"
  by (simp add: float_pair_def py_float_number)

lemma center_from_bbox_numbers:
  "float_convertible a \<Longrightarrow> float_convertible b \<Longrightarrow> float_convertible c \<Longrightarrow>
     float_convertible d \<Longrightarrow>
     center_from_bbox strf [a, b, c, d]
       = Inr ((num_of a + num_of c) / 2, (num_of b + num_of d) / 2)"
  by (simp add: center_from_bbox_def py_float_number)

lemma center_of_pairs_numbers:
  "float_convertible a \<Longrightarrow> float_convertible b \<Longrightarrow> float_convertible c \<Longrightarrow>
     float_convertible d \<Longrightarrow>
     items p = [a, b] \<Longrightarrow> items q = [c, d] \<Longrightarrow>
     center_of_pairs strf [p, q]
       = Inr ((num_of a + num_of c) / 2, (num_of b + num_of d) / 2)"
  by (simp add: center_of_pairs_def py_float_number)

lemma is_None_not_seq: "is_list_or_tuple v \<Longrightarrow> \<not> is_None v"
  by (cases v) auto

lemma number_not_seq: "is_int_or_float v \<Longrightarrow> \<not> is_list_or_tuple v"
  by (cases v) auto

lemma number_not_pair_seq: "is_int_or_float v \<Longrightarrow> \<not> is_pair_seq v"
  by (cases v) (auto simp: is_pair_seq_def)

lemma extract_xy_position_pair:
  assumes "is_list_or_tuple pos" "items pos = [a, b]" "coord_number a" "coord_number b"
    and "dict_get out ''position'' PNone = pos"
  shows "extract_xy strf out = Inr (num_of a, num_of b)"
  using assms
  by (simp add: extract_xy_def Let_def is_None_not_seq float_pair_numbers
      coord_number_is_number coord_number_convertible)

lemma extract_xy_position_bbox:
  assumes "is_list_or_tuple pos" "items pos = [a, b, c, d]"
    "coord_number a" "coord_number b" "coord_number c" "coord_number d"
    and "dict_get out ''position'' PNone = pos"
  shows "extract_xy strf out = Inr ((num_of a + num_of c) / 2, (num_of b + num_of d) / 2)"
  using assms
  by (simp add: extract_xy_def Let_def is_None_not_seq center_from_bbox_numbers
      coord_number_is_number coord_number_convertible)

lemma extract_xy_position_pairs:
  assumes "is_list_or_tuple pos" "items pos = [p, q]"
    "is_list_or_tuple p" "items p = [a, b]" "is_list_or_tuple q" "items q = [c, d]"
    "coord_number a" "coord_number b" "coord_number c" "coord_number d"
    and "dict_get out ''position'' PNone = pos"
  shows "extract_xy strf out = Inr ((num_of a + num_of c) / 2, (num_of b + num_of d) / 2)"
proof -
  have "\<not> is_int_or_float p"
    using assms(3) number_not_seq by blast
  moreover have "is_pair_seq p" "is_pair_seq q"
    using assms by (simp_all add: is_pair_seq_def)
  ultimately show ?thesis
    using assms
    by (simp add: extract_xy_def Let_def is_None_not_seq center_of_pairs_numbers
        coord_number_convertible)
qed

lemma not_recognised_position:
  assumes "\<not> recognised_position pos"
  shows "(\<not> is_None pos \<and> is_list_or_tuple pos
           \<and> length (items pos) = 2 \<and> list_all is_int_or_float (items pos)) = False"
    and "(\<not> is_None pos \<and> is_list_or_tuple pos
           \<and> length (items pos) = 4 \<and> list_all is_int_or_float (items pos)) = False"
    and "(\<not> is_None pos \<and> is_list_or_tuple pos
           \<and> length (items pos) = 2 \<and> list_all is_pair_seq (items pos)) = False"
  using assms unfolding recognised_position_def by blast+

lemma extract_xy_fallback:
  assumes "\<not> recognised_position (dict_get out ''position'' PNone)"
  shows "extract_xy strf out =
     (let x = dict_get out ''x'' (PFloat 0.5); y = dict_get out ''y'' (PFloat 0.5)
      in if is_list_or_tuple x \<and> length (items x) = 2 \<and> list_all is_int_or_float (items x)
         then float_pair strf (items x ! 0) (items x ! 1)
         else if is_list_or_tuple x \<and> length (items x) = 4 \<and> list_all is_int_or_float (items x)
         then center_from_bbox strf (items x)
         else if is_list_or_tuple y \<and> length (items y) = 2 \<and> list_all is_int_or_float (items y)
         then float_pair strf (items y ! 0) (items y ! 1)
         else if is_list_or_tuple y \<and> length (items y) = 4 \<and> list_all is_int_or_float (items y)
         then center_from_bbox strf (items y)
         else float_pair strf x y)"
  unfolding extract_xy_def Let_def
  by (simp only: not_recognised_position [OF assms] if_False)

lemma extract_xy_mc_fallback:
  assumes "\<not> recognised_position (dict_get out ''position'' PNone)"
  shows "extract_xy_mc strf out =
     (let x = dict_get out ''x'' (PFloat 0.5); y = dict_get out ''y'' (PFloat 0.5)
      in if is_list_or_tuple x \<and> length (items x) = 2
         then float_pair strf (items x ! 0) (items x ! 1)
         else if is_list_or_tuple x \<and> length (items x) = 4
         then center_from_bbox strf (items x)
         else if is_list_or_tuple y \<and> length (items y) = 2
         then float_pair strf (items y ! 0) (items y ! 1)
         else if is_list_or_tuple y \<and> length (items y) = 4
         then center_from_bbox strf (items y)
         else float_pair strf x y)"
  unfolding extract_xy_mc_def Let_def
  by (simp only: not_recognised_position [OF assms] if_False)

lemma extract_xy_mc_position:
  assumes "recognised_position (dict_get out ''position'' PNone)"
  shows "extract_xy_mc strf out = extract_xy strf out"
proof -
  let ?pos = "dict_get out ''position'' PNone"
  let ?g1 = "\<not> is_None ?pos \<and> is_list_or_tuple ?pos
           \<and> length (items ?pos) = 2 \<and> list_all is_int_or_float (items ?pos)"
  let ?g2 = "\<not> is_None ?pos \<and> is_list_or_tuple ?pos
           \<and> length (items ?pos) = 4 \<and> list_all is_int_or_float (items ?pos)"
  let ?g3 = "\<not> is_None ?pos \<and> is_list_or_tuple ?pos
           \<and> length (items ?pos) = 2 \<and> list_all is_pair_seq (items ?pos)"
  consider (pair) "?g1 = True"
    | (bbox) "?g1 = False" "?g2 = True"
    | (pairs) "?g1 = False" "?g2 = False" "?g3 = True"
    using assms unfolding recognised_position_def by blast
  then show ?thesis
  proof cases
    case pair
    show ?thesis
      unfolding extract_xy_mc_def extract_xy_def Let_def
      by (simp only: pair if_True)
  next
    case bbox
    show ?thesis
      unfolding extract_xy_mc_def extract_xy_def Let_def
      by (simp only: bbox if_True if_False)
  next
    case pairs
    show ?thesis
      unfolding extract_xy_mc_def extract_xy_def Let_def
      by (simp only: pairs if_True if_False)
  qed
qed

lemma dict_get_absent: "map_of d k = None \<Longrightarrow> dict_get d k dflt = dflt"
  by (simp add: dict_get_def)

text \<open>
  The two copies agree on every mapping in which a list of two or four items under
  \<open>x\<close> or \<open>y\<close> holds numbers only.
\<close>

lemma extract_xy_mc_eq:
  assumes "is_list_or_tuple (dict_get out ''x'' (PFloat 0.5))
             \<Longrightarrow> length (items (dict_get out ''x'' (PFloat 0.5))) \<in> {2, 4}
             \<Longrightarrow> list_all is_int_or_float (items (dict_get out ''x'' (PFloat 0.5)))"
    and "is_list_or_tuple (dict_get out ''y'' (PFloat 0.5))
             \<Longrightarrow> length (items (dict_get out ''y'' (PFloat 0.5))) \<in> {2, 4}
             \<Longrightarrow> list_all is_int_or_float (items (dict_get out ''y'' (PFloat 0.5)))"
  shows "extract_xy_mc strf out = extract_xy strf out"
proof (cases "recognised_position (dict_get out ''position'' PNone)")
  case True
  then show ?thesis by (rule extract_xy_mc_position)
next
  case False
  let ?x = "dict_get out ''x'' (PFloat 0.5)"
  let ?y = "dict_get out ''y'' (PFloat 0.5)"
  have x2: "(is_list_or_tuple ?x \<and> length (items ?x) = 2 \<and> list_all is_int_or_float (items ?x))
            = (is_list_or_tuple ?x \<and> length (items ?x) = 2)"
    using assms(1) by auto
  have x4: "(is_list_or_tuple ?x \<and> length (items ?x) = 4 \<and> list_all is_int_or_float (items ?x))
            = (is_list_or_tuple ?x \<and> length (items ?x) = 4)"
    using assms(1) by auto
  have y2: "(is_list_or_tuple ?y \<and> length (items ?y) = 2 \<and> list_all is_int_or_float (items ?y))
            = (is_list_or_tuple ?y \<and> length (items ?y) = 2)"
    using assms(2) by auto
  have y4: "(is_list_or_tuple ?y \<and> length (items ?y) = 4 \<and> list_all is_int_or_float (items ?y))
            = (is_list_or_tuple ?y \<and> length (items ?y) = 4)"
    using assms(2) by auto
  show ?thesis
    unfolding extract_xy_fallback [OF False] extract_xy_mc_fallback [OF False] Let_def
    by (simp only: x2 x4 y2 y4)
qed

text \<open>
  Claim C4: for each well-formed encoding \<open>_extract_xy\<close> returns the exact point, and
  a well-formed \<open>position\<close> goes before \<open>x\<close> and \<open>y\<close>. With numbers \<open>a\<close>,
  \<open>b\<close>, \<open>c\<close>, \<open>d\<close> of magnitude at most \<open>2^53\<close> (normalised and pixel
  coordinates are; beyond it \<open>float\<close> rounds an \<open>int\<close>, a sum of floats can
  overflow, and from \<open>2^1024 - 2^970\<close> on \<open>float\<close> of an \<open>int\<close> raises):
  \<open>position = [a, b]\<close> gives \<open>(a, b)\<close>;
  \<open>position = [a, b, c, d]\<close> gives \<open>((a + c) / 2, (b + d) / 2)\<close>;
  \<open>position = [[a, b], [c, d]]\<close> gives the centre of the two points; whatever
  \<open>x\<close> and \<open>y\<close> hold. Without a \<open>position\<close> of one of these shapes, scalar
  \<open>x = a\<close> and \<open>y = b\<close> give \<open>(a, b)\<close>, a list of two or four numbers under \<open>x\<close>
  is resolved by the two list rules, and so is one under \<open>y\<close> when \<open>x\<close> holds no such
  list.
\<close>

theorem extract_xy_shapes:
  assumes "coord_number a" and "coord_number b" and "coord_number c" and "coord_number d"
  shows "(is_list_or_tuple (dict_get out ''position'' PNone)
            \<and> items (dict_get out ''position'' PNone) = [a, b]
          \<longrightarrow> extract_xy strf out = Inr (num_of a, num_of b))
       \<and> (is_list_or_tuple (dict_get out ''position'' PNone)
            \<and> items (dict_get out ''position'' PNone) = [a, b, c, d]
          \<longrightarrow> extract_xy strf out = Inr ((num_of a + num_of c) / 2, (num_of b + num_of d) / 2))
       \<and> (is_list_or_tuple (dict_get out ''position'' PNone)
            \<and> items (dict_get out ''position'' PNone) = [p, q]
            \<and> is_list_or_tuple p \<and> items p = [a, b] \<and> is_list_or_tuple q \<and> items q = [c, d]
          \<longrightarrow> extract_xy strf out = Inr ((num_of a + num_of c) / 2, (num_of b + num_of d) / 2))
       \<and> (\<not> recognised_position (dict_get out ''position'' PNone)
            \<and> dict_get out ''x'' (PFloat 0.5) = a \<and> dict_get out ''y'' (PFloat 0.5) = b
          \<longrightarrow> extract_xy strf out = Inr (num_of a, num_of b))
       \<and> (\<not> recognised_position (dict_get out ''position'' PNone)
            \<and> is_list_or_tuple (dict_get out ''x'' (PFloat 0.5))
            \<and> items (dict_get out ''x'' (PFloat 0.5)) = [a, b]
          \<longrightarrow> extract_xy strf out = Inr (num_of a, num_of b))
       \<and> (\<not> recognised_position (dict_get out ''position'' PNone)
            \<and> is_list_or_tuple (dict_get out ''x'' (PFloat 0.5))
            \<and> items (dict_get out ''x'' (PFloat 0.5)) = [a, b, c, d]
          \<longrightarrow> extract_xy strf out = Inr ((num_of a + num_of c) / 2, (num_of b + num_of d) / 2))
       \<and> (\<not> recognised_position (dict_get out ''position'' PNone)
            \<and> \<not> number_seq (dict_get out ''x'' (PFloat 0.5))
            \<and> is_list_or_tuple (dict_get out ''y'' (PFloat 0.5))
            \<and> items (dict_get out ''y'' (PFloat 0.5)) = [a, b]
          \<longrightarrow> extract_xy strf out = Inr (num_of a, num_of b))
       \<and> (\<not> recognised_position (dict_get out ''position'' PNone)
            \<and> \<not> number_seq (dict_get out ''x'' (PFloat 0.5))
            \<and> is_list_or_tuple (dict_get out ''y'' (PFloat 0.5))
            \<and> items (dict_get out ''y'' (PFloat 0.5)) = [a, b, c, d]
          \<longrightarrow> extract_xy strf out = Inr ((num_of a + num_of c) / 2, (num_of b + num_of d) / 2))"
proof (intro conjI impI)
  assume "is_list_or_tuple (dict_get out ''position'' PNone)
            \<and> items (dict_get out ''position'' PNone) = [a, b]"
  then show "extract_xy strf out = Inr (num_of a, num_of b)"
    using assms extract_xy_position_pair by blast
next
  assume "is_list_or_tuple (dict_get out ''position'' PNone)
            \<and> items (dict_get out ''position'' PNone) = [a, b, c, d]"
  then show "extract_xy strf out = Inr ((num_of a + num_of c) / 2, (num_of b + num_of d) / 2)"
    using assms extract_xy_position_bbox by blast
next
  assume "is_list_or_tuple (dict_get out ''position'' PNone)
            \<and> items (dict_get out ''position'' PNone) = [p, q]
            \<and> is_list_or_tuple p \<and> items p = [a, b] \<and> is_list_or_tuple q \<and> items q = [c, d]"
  then show "extract_xy strf out = Inr ((num_of a + num_of c) / 2, (num_of b + num_of d) / 2)"
    using assms extract_xy_position_pairs by blast
next
  assume "\<not> recognised_position (dict_get out ''position'' PNone)
            \<and> dict_get out ''x'' (PFloat 0.5) = a \<and> dict_get out ''y'' (PFloat 0.5) = b"
  then show "extract_xy strf out = Inr (num_of a, num_of b)"
    using assms
    by (simp add: extract_xy_fallback number_not_seq float_pair_numbers
        coord_number_is_number coord_number_convertible)
next
  assume "\<not> recognised_position (dict_get out ''position'' PNone)
            \<and> is_list_or_tuple (dict_get out ''x'' (PFloat 0.5))
            \<and> items (dict_get out ''x'' (PFloat 0.5)) = [a, b]"
  then show "extract_xy strf out = Inr (num_of a, num_of b)"
    using assms
    by (simp add: extract_xy_fallback float_pair_numbers
        coord_number_is_number coord_number_convertible)
next
  assume "\<not> recognised_position (dict_get out ''position'' PNone)
            \<and> is_list_or_tuple (dict_get out ''x'' (PFloat 0.5))
            \<and> items (dict_get out ''x'' (PFloat 0.5)) = [a, b, c, d]"
  then show "extract_xy strf out = Inr ((num_of a + num_of c) / 2, (num_of b + num_of d) / 2)"
    using assms
    by (simp add: extract_xy_fallback center_from_bbox_numbers
        coord_number_is_number coord_number_convertible)
next
  assume "\<not> recognised_position (dict_get out ''position'' PNone)
            \<and> \<not> number_seq (dict_get out ''x'' (PFloat 0.5))
            \<and> is_list_or_tuple (dict_get out ''y'' (PFloat 0.5))
            \<and> items (dict_get out ''y'' (PFloat 0.5)) = [a, b]"
  then show "extract_xy strf out = Inr (num_of a, num_of b)"
    using assms
    by (auto simp: extract_xy_fallback number_seq_def float_pair_numbers
        coord_number_is_number coord_number_convertible)
next
  assume "\<not> recognised_position (dict_get out ''position'' PNone)
            \<and> \<not> number_seq (dict_get out ''x'' (PFloat 0.5))
            \<and> is_list_or_tuple (dict_get out ''y'' (PFloat 0.5))
            \<and> items (dict_get out ''y'' (PFloat 0.5)) = [a, b, c, d]"
  then show "extract_xy strf out = Inr ((num_of a + num_of c) / 2, (num_of b + num_of d) / 2)"
    using assms
    by (auto simp: extract_xy_fallback number_seq_def center_from_bbox_numbers
        coord_number_is_number coord_number_convertible)
qed

theorem extract_xy_shapes_witness:
  "extract_xy Map.empty [(''position'', PList [PFloat 0.2, PInt 1])] = Inr (1 / 5, 1)
   \<and> extract_xy Map.empty [(''x'', PFloat 0.9), (''position'', PList [PFloat 0.2, PInt 1, PFloat 0.6, PInt 0])]
       = Inr (2 / 5, 1 / 2)
   \<and> extract_xy Map.empty [(''position'', PList [PList [PFloat 0.2, PInt 1], PTuple [PFloat 0.6, PInt 0]])]
       = Inr (2 / 5, 1 / 2)
   \<and> extract_xy Map.empty [(''x'', PFloat 0.2), (''y'', PInt 1)] = Inr (1 / 5, 1)
   \<and> extract_xy Map.empty [(''x'', PList [PFloat 0.2, PInt 1])] = Inr (1 / 5, 1)
   \<and> extract_xy Map.empty [(''x'', PList [PFloat 0.2, PInt 1, PFloat 0.6, PInt 0])] = Inr (2 / 5, 1 / 2)
   \<and> extract_xy Map.empty [(''x'', PFloat 0.7), (''y'', PList [PFloat 0.2, PInt 1])] = Inr (1 / 5, 1)
   \<and> extract_xy Map.empty [(''y'', PList [PFloat 0.2, PInt 1, PFloat 0.6, PInt 0])] = Inr (2 / 5, 1 / 2)"
  using
    extract_xy_shapes [where a = "PFloat 0.2" and b = "PInt 1" and c = "PFloat 0.6" and d = "PInt 0"
      and strf = Map.empty and out = "[(''position'', PList [PFloat 0.2, PInt 1])]"]
    extract_xy_shapes [where a = "PFloat 0.2" and b = "PInt 1" and c = "PFloat 0.6" and d = "PInt 0"
      and strf = Map.empty
      and out = "[(''x'', PFloat 0.9), (''position'', PList [PFloat 0.2, PInt 1, PFloat 0.6, PInt 0])]"]
    extract_xy_shapes [where a = "PFloat 0.2" and b = "PInt 1" and c = "PFloat 0.6" and d = "PInt 0"
      and strf = Map.empty and p = "PList [PFloat 0.2, PInt 1]" and q = "PTuple [PFloat 0.6, PInt 0]"
      and out = "[(''position'', PList [PList [PFloat 0.2, PInt 1], PTuple [PFloat 0.6, PInt 0]])]"]
    extract_xy_shapes [where a = "PFloat 0.2" and b = "PInt 1" and c = "PFloat 0.6" and d = "PInt 0"
      and strf = Map.empty and out = "[(''x'', PFloat 0.2), (''y'', PInt 1)]"]
    extract_xy_shapes [where a = "PFloat 0.2" and b = "PInt 1" and c = "PFloat 0.6" and d = "PInt 0"
      and strf = Map.empty and out = "[(''x'', PList [PFloat 0.2, PInt 1])]"]
    extract_xy_shapes [where a = "PFloat 0.2" and b = "PInt 1" and c = "PFloat 0.6" and d = "PInt 0"
      and strf = Map.empty and out = "[(''x'', PList [PFloat 0.2, PInt 1, PFloat 0.6, PInt 0])]"]
    extract_xy_shapes [where a = "PFloat 0.2" and b = "PInt 1" and c = "PFloat 0.6" and d = "PInt 0"
      and strf = Map.empty and out = "[(''x'', PFloat 0.7), (''y'', PList [PFloat 0.2, PInt 1])]"]
    extract_xy_shapes [where a = "PFloat 0.2" and b = "PInt 1" and c = "PFloat 0.6" and d = "PInt 0"
      and strf = Map.empty and out = "[(''y'', PList [PFloat 0.2, PInt 1, PFloat 0.6, PInt 0])]"]
  by (simp add: dict_get_def recognised_position_def number_seq_def is_pair_seq_def
      coord_number_def)

text \<open>
  Claim C1, as amended: \<open>_extract_xy\<close> returns exactly \<open>(0.5, 0.5)\<close> when the mapping
  has no \<open>x\<close>, no \<open>y\<close> and no \<open>position\<close> of a recognised shape; more generally,
  without such a \<open>position\<close>, it returns without raising, and both copies return the
  same point, when \<open>x\<close> and \<open>y\<close> are each absent (then 0.5) or a number that
  \<open>float\<close> converts: a bool, a float, or an int of magnitude below
  \<open>2^1024 - 2^970\<close>.
\<close>

theorem extract_xy_default:
  assumes "\<not> recognised_position (dict_get out ''position'' PNone)"
  shows "(map_of out ''x'' = None \<and> map_of out ''y'' = None
          \<longrightarrow> extract_xy strf out = Inr (1 / 2, 1 / 2) \<and> extract_xy_mc strf out = Inr (1 / 2, 1 / 2))
       \<and> (float_convertible (dict_get out ''x'' (PFloat 0.5))
            \<and> float_convertible (dict_get out ''y'' (PFloat 0.5))
          \<longrightarrow> (\<exists>p. extract_xy strf out = Inr p \<and> extract_xy_mc strf out = Inr p))"
  using assms
  by (auto simp: extract_xy_fallback extract_xy_mc_fallback dict_get_absent float_pair_def
      number_not_seq convertible_is_number py_float_number Let_def)

theorem extract_xy_default_witness:
  "extract_xy Map.empty [(''action'', PStr ''CLICK''), (''position'', PStr ''center'')] = Inr (1 / 2, 1 / 2)
   \<and> extract_xy_mc Map.empty [(''action'', PStr ''CLICK''), (''position'', PStr ''center'')] = Inr (1 / 2, 1 / 2)
   \<and> float_convertible (PInt 1)
   \<and> (\<exists>p. extract_xy Map.empty [(''action'', PStr ''CLICK''), (''x'', PInt 1)] = Inr p
          \<and> extract_xy_mc Map.empty [(''action'', PStr ''CLICK''), (''x'', PInt 1)] = Inr p)"
  using
    extract_xy_default [where strf = Map.empty
      and out = "[(''action'', PStr ''CLICK''), (''position'', PStr ''center'')]"]
    extract_xy_default [where strf = Map.empty
      and out = "[(''action'', PStr ''CLICK''), (''x'', PInt 1)]"]
  by (simp add: dict_get_def recognised_position_def float_overflow_at_def)

text \<open>
  The claim C1 as stated, that the extractor never raises, fails where a value is present
  and is not convertible: for \<open>{"action": "CLICK", "x": None, "y": 0.4}\<close> the final
  \<open>float(x)\<close> raises \<open>TypeError\<close> in both copies, whatever the string parser.
  An int beyond the range of a double is another such value: \<open>float(10**400)\<close>
  raises \<open>OverflowError\<close> (lemma \<open>extract_xy_overflow\<close> below).
\<close>

theorem extract_xy_raises:
  "\<forall>strf. extract_xy strf [(''action'', PStr ''CLICK''), (''x'', PNone), (''y'', PFloat 0.4)] = Inl TypeError
        \<and> extract_xy_mc strf [(''action'', PStr ''CLICK''), (''x'', PNone), (''y'', PFloat 0.4)] = Inl TypeError"
  by (simp add: extract_xy_def extract_xy_mc_def dict_get_def float_pair_def)

lemma extract_xy_overflow:
  "extract_xy strf [(''action'', PStr ''CLICK''), (''x'', PInt (10 ^ 400)), (''y'', PInt 0)]
     = Inl OverflowError
   \<and> extract_xy_mc strf [(''action'', PStr ''CLICK''), (''x'', PInt (10 ^ 400)), (''y'', PInt 0)]
     = Inl OverflowError
   \<and> extract_xy strf [(''action'', PStr ''CLICK''), (''position'', PList [PInt (10 ^ 400), PInt 0])]
     = Inl OverflowError"
  by (simp add: extract_xy_def extract_xy_mc_def dict_get_def float_pair_def float_overflow_at_def)

text \<open>
  Claim C9: the two copies of \<open>_extract_xy\<close> return equal results or fail on the same
  inputs. For \<open>{"action": "CLICK", "x": [None, None], "y": [0.1, 0.2]}\<close> the copy of
  gui\_main.py skips the list under \<open>x\<close>, which holds no numbers, and returns
  \<open>(0.1, 0.2)\<close> from \<open>y\<close>; the copy of gui\_mission\_control.py tests the length
  only and raises \<open>TypeError\<close> on \<open>float(None)\<close>.
\<close>

theorem extract_xy_copies_differ:
  "\<forall>strf. extract_xy strf [(''action'', PStr ''CLICK''), (''x'', PList [PNone, PNone]),
                           (''y'', PList [PFloat 0.1, PFloat 0.2])] = Inr (1 / 10, 1 / 5)
        \<and> extract_xy_mc strf [(''action'', PStr ''CLICK''), (''x'', PList [PNone, PNone]),
                           (''y'', PList [PFloat 0.1, PFloat 0.2])] = Inl TypeError"
  by (simp add: extract_xy_def extract_xy_mc_def dict_get_def float_pair_def)

section \<open>Properties of the objective execution loop\<close>

lemma retry_effect_one_query:
  assumes "r \<noteq> Exhausted"
  shows "retry_effect (Suc m) st r (st\<lparr>world := w', trace := trace st @ [Ask h]\<rparr>)"
  unfolding retry_effect_def
  using assms by (intro exI [of _ "[Ask h]"] exI [of _ "[]"]) simp

lemma retry_effect_requery:
  assumes "retry_effect m
             (st\<lparr>world := w', trace := trace st @ [Ask h], history := history st @ [invalid_coords out]\<rparr>)
             r st'"
  shows "retry_effect (Suc m) st r st'"
proof -
  from assms obtain asks hs where
    a: "trace st' = (trace st @ [Ask h]) @ asks" "list_all is_Ask asks" "length asks \<le> m"
      "history st' = (history st @ [invalid_coords out]) @ hs" "list_all is_invalid_entry hs"
      "length asks = length hs + (if r = Exhausted then 0 else 1)"
      "r = Exhausted \<longrightarrow> length asks = m" "step st' = step st"
    unfolding retry_effect_def by auto
  show ?thesis
    unfolding retry_effect_def
    using a
    by (intro exI [of _ "Ask h # asks"] exI [of _ "invalid_coords out # hs"])
       (simp add: is_invalid_entry_def invalid_coords_def)
qed

lemma bitti_not_pointer: "''BITTI'' \<notin> set pointer_kinds"
  by (simp add: pointer_kinds_def)

lemma ask_loop_invalid:
  assumes "ask_next_action e (trim_history (history st) 6) (world st) = (out, w')"
    and "action_of out ''NOOP'' = Inr a" and "a \<in> set pointer_kinds"
    and "ext (float_str e) out = Inr (x, y)" and "\<not> validate_xy e x y"
  shows "ask_loop e ext (Suc n) st =
           ask_loop e ext n
             (st\<lparr>world := w', trace := trace st @ [Ask (trim_history (history st) 6)],
                 history := history st @ [invalid_coords out]\<rparr>)"
proof -
  have "a \<noteq> ''BITTI''"
    using assms(3) bitti_not_pointer by blast
  then show ?thesis
    using assms by (simp add: Let_def)
qed

lemma ask_loop_valid:
  assumes "ask_next_action e (trim_history (history st) 6) (world st) = (out, w')"
    and "action_of out ''NOOP'' = Inr a" and "a \<in> set pointer_kinds"
    and "ext (float_str e) out = Inr (x, y)" and "validate_xy e x y"
  shows "ask_loop e ext (Suc n) st =
           (Accepted (dict_set (dict_set out ''x'' (PFloat x)) ''y'' (PFloat y)),
            st\<lparr>world := w', trace := trace st @ [Ask (trim_history (history st) 6)]\<rparr>)"
proof -
  have "a \<noteq> ''BITTI''"
    using assms(3) bitti_not_pointer by blast
  then show ?thesis
    using assms by (simp add: Let_def)
qed

lemma ask_loop_extract_fails:
  assumes "ask_next_action e (trim_history (history st) 6) (world st) = (out, w')"
    and "action_of out ''NOOP'' = Inr a" and "a \<in> set pointer_kinds"
    and "ext (float_str e) out = Inl err"
  shows "ask_loop e ext (Suc n) st =
           (Failed err, st\<lparr>world := w', trace := trace st @ [Ask (trim_history (history st) 6)]\<rparr>)"
proof -
  have "a \<noteq> ''BITTI''"
    using assms(3) bitti_not_pointer by blast
  then show ?thesis
    using assms by (simp add: Let_def)
qed

lemma ask_loop_other:
  assumes "ask_next_action e (trim_history (history st) 6) (world st) = (out, w')"
    and "action_of out ''NOOP'' = Inr a" and "a \<notin> set pointer_kinds" and "a \<noteq> ''BITTI''"
  shows "ask_loop e ext (Suc n) st =
           (Accepted out, st\<lparr>world := w', trace := trace st @ [Ask (trim_history (history st) 6)]\<rparr>)"
  using assms by (simp add: Let_def)

lemma ask_loop_bitti:
  assumes "ask_next_action e (trim_history (history st) 6) (world st) = (out, w')"
    and "action_of out ''NOOP'' = Inr ''BITTI''"
  shows "ask_loop e ext (Suc n) st =
           (Bitti, st\<lparr>world := w', trace := trace st @ [Ask (trim_history (history st) 6)]\<rparr>)"
  using assms by (simp add: Let_def)

lemma ask_loop_action_fails:
  assumes "ask_next_action e (trim_history (history st) 6) (world st) = (out, w')"
    and "action_of out ''NOOP'' = Inl err"
  shows "ask_loop e ext (Suc n) st =
           (Failed err, st\<lparr>world := w', trace := trace st @ [Ask (trim_history (history st) 6)]\<rparr>)"
  using assms by (simp add: Let_def)

lemma ask_loop_effect: "ask_loop e ext m st = (r, st') \<Longrightarrow> retry_effect m st r st'"
proof (induction m arbitrary: st)
  case 0
  then have "r = Exhausted" "st' = st"
    by simp_all
  then show ?case
    by (simp add: retry_effect_def)
next
  case (Suc m)
  obtain out w' where ask: "ask_next_action e (trim_history (history st) 6) (world st) = (out, w')"
    by (cases "ask_next_action e (trim_history (history st) 6) (world st)")
  let ?h = "trim_history (history st) 6"
  let ?st1 = "st\<lparr>world := w', trace := trace st @ [Ask ?h]\<rparr>"
  show ?case
  proof (cases "action_of out ''NOOP''")
    case (Inl err)
    from ask_loop_action_fails [OF ask Inl] Suc.prems
    have "r = Failed err" "st' = ?st1"
      by simp_all
    then show ?thesis
      using retry_effect_one_query [where r = r and m = m and st = st and w' = w' and h = "?h"] by simp
  next
    case (Inr a)
    show ?thesis
    proof (cases "a = ''BITTI''")
      case True
      from ask_loop_bitti [OF ask Inr [unfolded True]] Suc.prems
      have "r = Bitti" "st' = ?st1"
        by simp_all
      then show ?thesis
        using retry_effect_one_query [where r = r and m = m and st = st and w' = w' and h = "?h"] by simp
    next
      case False
      show ?thesis
      proof (cases "a \<in> set pointer_kinds")
        case outside: False
        from ask_loop_other [OF ask Inr outside False] Suc.prems
        have "r = Accepted out" "st' = ?st1"
          by simp_all
        then show ?thesis
          using retry_effect_one_query [where r = r and m = m and st = st and w' = w' and h = "?h"] by simp
      next
        case True
        show ?thesis
        proof (cases "ext (float_str e) out")
          case (Inl err)
          from ask_loop_extract_fails [where ext = ext, OF ask Inr True Inl] Suc.prems
          have "r = Failed err" "st' = ?st1"
            by simp_all
          then show ?thesis
            using retry_effect_one_query [where r = r and m = m and st = st and w' = w' and h = "?h"] by simp
        next
          case xy: (Inr p)
          obtain x y where p: "p = (x, y)"
            by (cases p)
          show ?thesis
          proof (cases "validate_xy e x y")
            case valid: True
            from ask_loop_valid [where ext = ext, OF ask Inr True xy [unfolded p] valid] Suc.prems
            have "r = Accepted (dict_set (dict_set out ''x'' (PFloat x)) ''y'' (PFloat y))"
              "st' = ?st1"
              by simp_all
            then show ?thesis
              using retry_effect_one_query [where r = r and m = m and st = st and w' = w' and h = "?h"] by simp
          next
            case invalid: False
            from ask_loop_invalid [where ext = ext, OF ask Inr True xy [unfolded p] invalid] Suc.prems
            have "ask_loop e ext m (st\<lparr>world := w', trace := trace st @ [Ask ?h],
                     history := history st @ [invalid_coords out]\<rparr>) = (r, st')"
              by simp
            then have "retry_effect m (st\<lparr>world := w', trace := trace st @ [Ask ?h],
                     history := history st @ [invalid_coords out]\<rparr>) r st'"
              by (rule Suc.IH)
            then show ?thesis
              by (rule retry_effect_requery)
          qed
        qed
      qed
    qed
  qed
qed






lemma run_loop_Stop: "loop_body e ext st = Stop r st' \<Longrightarrow> run_loop e ext st = (r, st')"
  by (simp add: run_loop.simps)

lemma run_loop_Continue:
  "loop_body e ext st = Continue st' \<Longrightarrow>
     run_loop e ext st =
       (if step st' > MAX_STEPS e then (Returned ''DONE(max-steps)'', st') else run_loop e ext st')"
  by (simp add: run_loop.simps)


lemma executed_append: "executed (cs @ ds) = executed cs @ executed ds"
  by (induction cs rule: executed.induct) simp_all

lemma executed_asks: "list_all is_Ask cs \<Longrightarrow> executed cs = []"
  by (induction cs rule: executed.induct) simp_all

lemma preview_executed: "preview strf out i = Inr pv \<Longrightarrow> executed pv = []"
  by (auto simp: preview_def split: option.splits sum.splits)

lemma ask_loop_executed:
  assumes "ask_loop e ext m st = (r, st')"
  shows "executed (trace st') = executed (trace st)" and "step st' = step st"
proof -
  from ask_loop_effect [OF assms] obtain asks where
    "trace st' = trace st @ asks" "list_all is_Ask asks" "step st' = step st"
    unfolding retry_effect_def by blast
  then show "executed (trace st') = executed (trace st)" and "step st' = step st"
    by (simp_all add: executed_append executed_asks)
qed

lemma loop_body_cases:
  assumes "loop_body e ext st = it"
  obtains (stopped) "it = Stop (Returned ''STOPPED'') st"
  | (ended) r a st2 where "it = Stop r st2"
      "ask_loop e ext (nat (MODEL_RETRY e + 1))
         (st\<lparr>world := capture e (world st), trace := trace st @ [Capture]\<rparr>) = (a, st2)"
  | (continue) out st2 pv where
      "ask_loop e ext (nat (MODEL_RETRY e + 1))
         (st\<lparr>world := capture e (world st), trace := trace st @ [Capture]\<rparr>) = (Accepted out, st2)"
      "executed pv = []"
      "it = Continue (st2\<lparr>world := execute_action e out (world st2),
                           trace := trace st2 @ pv @ [Execute out],
                           history := history st2 @ [out],
                           step := step st2 + 1\<rparr>)"
proof (cases "stop_is_set e (world st)")
  case True
  then have "it = Stop (Returned ''STOPPED'') st"
    using assms by (simp add: loop_body_def)
  then show ?thesis by (rule stopped)
next
  case False
  let ?st1 = "st\<lparr>world := capture e (world st), trace := trace st @ [Capture]\<rparr>"
  obtain a st2 where al: "ask_loop e ext (nat (MODEL_RETRY e + 1)) ?st1 = (a, st2)"
    by (cases "ask_loop e ext (nat (MODEL_RETRY e + 1)) ?st1")
  have body: "it =
     (case a of
        Bitti \<Rightarrow> Stop (Returned ''DONE(BITTI)'') st2
      | Failed err \<Rightarrow> Stop (Raised err) st2
      | Exhausted \<Rightarrow> Stop (Returned ''ERROR(no valid action)'') st2
      | Accepted out \<Rightarrow>
          if should_stop_on_repeat e (history st2) out
          then Stop (Returned ''DONE(repeat-guard)'') st2
          else
            (case action_of out [] of
               Inl err \<Rightarrow> Stop (Raised err) st2
             | Inr action \<Rightarrow>
                 (case (if action \<in> set pointer_kinds
                        then preview (float_str e) out (step st2) else Inr []) of
                    Inl err \<Rightarrow> Stop (Raised err) st2
                  | Inr pv \<Rightarrow>
                      Continue (st2\<lparr>world := execute_action e out (world st2),
                                     trace := trace st2 @ pv @ [Execute out],
                                     history := history st2 @ [out],
                                     step := step st2 + 1\<rparr>))))"
    using assms False unfolding loop_body_def Let_def al by simp
  show ?thesis
  proof (cases a)
    case Bitti
    then show ?thesis using body al ended by simp
  next
    case Exhausted
    then show ?thesis using body al ended by simp
  next
    case (Failed err)
    then show ?thesis using body al ended by simp
  next
    case (Accepted out)
    show ?thesis
    proof (cases "should_stop_on_repeat e (history st2) out")
      case True
      then show ?thesis using body al ended Accepted by simp
    next
      case guard: False
      show ?thesis
      proof (cases "action_of out []")
        case (Inl err)
        then show ?thesis using body al ended Accepted guard by simp
      next
        case (Inr action)
        show ?thesis
        proof (cases "if action \<in> set pointer_kinds
                        then preview (float_str e) out (step st2) else Inr []")
          case pvfail: (Inl err)
          have "it = Stop (Raised err) st2"
            unfolding body Accepted using guard Inr pvfail by simp
          then show ?thesis using al ended by blast
        next
          case pvok: (Inr pv)
          have ex: "executed pv = []"
            using pvok preview_executed [of "float_str e" out "step st2" pv]
            by (auto split: if_splits)
          have "it = Continue (st2\<lparr>world := execute_action e out (world st2),
                                     trace := trace st2 @ pv @ [Execute out],
                                     history := history st2 @ [out],
                                     step := step st2 + 1\<rparr>)"
            unfolding body Accepted using guard Inr pvok by simp
          then show ?thesis
            using al [unfolded Accepted] ex continue by blast
        qed
      qed
    qed
  qed
qed

lemma loop_body_Stop_effect:
  assumes "loop_body e ext st = Stop r st'"
  shows "executed (trace st') = executed (trace st)" and "step st' = step st"
proof -
  have "executed (trace st') = executed (trace st) \<and> step st' = step st"
    using assms
  proof (cases rule: loop_body_cases)
    case stopped
    then show ?thesis by simp
  next
    case (ended r a st2)
    then show ?thesis
      using ask_loop_executed [OF ended(2)] by (simp add: executed_append)
  next
    case (continue out st2 pv)
    then show ?thesis by simp
  qed
  then show "executed (trace st') = executed (trace st)" and "step st' = step st"
    by simp_all
qed

lemma loop_body_Continue_effect:
  assumes "loop_body e ext st = Continue st'"
  shows "\<exists>out st2. executed (trace st') = executed (trace st) @ [out]
           \<and> ask_loop e ext (nat (MODEL_RETRY e + 1))
                (st\<lparr>world := capture e (world st), trace := trace st @ [Capture]\<rparr>)
              = (Accepted out, st2)"
  using assms
proof (cases rule: loop_body_cases)
  case stopped
  then show ?thesis by simp
next
  case (ended r a st2)
  then show ?thesis by simp
next
  case (continue out st2 pv)
  have "executed (trace st') = executed (trace st) @ [out]"
    using continue(2,3) ask_loop_executed(1) [OF continue(1)] by (simp add: executed_append)
  then show ?thesis
    using continue(1) by blast
qed





section \<open>Properties of the actuation boundary\<close>

lemma map_of_dict_set: "map_of (dict_set d k v) k' = (if k' = k then Some v else map_of d k')"
  by (induction d) auto

lemma action_of_dict_set: "k \<noteq> ''action'' \<Longrightarrow> action_of (dict_set d k v) dflt = action_of d dflt"
  by (simp add: action_of_def dict_get_def map_of_dict_set)

lemma py_upper_Nil: "py_upper [] = []"
  by (simp add: py_upper_def)

lemma not_pointer_either_default:
  assumes "action_of out ''NOOP'' = Inr a" and "a \<notin> set pointer_kinds"
  shows "\<not> is_pointer_action out"
proof (cases "truthy (dict_get out ''action'' PNone)")
  case True
  then have "action_of out [] = action_of out ''NOOP''"
    by (simp add: action_of_def)
  then show ?thesis
    using assms by (simp add: is_pointer_action_def)
next
  case False
  then have "action_of out [] = Inr []"
    by (simp add: action_of_def py_upper_Nil)
  then show ?thesis
    by (simp add: is_pointer_action_def pointer_kinds_def)
qed

lemma validated_after_set:
  "validate_xy e x y \<Longrightarrow>
     safe_action e (dict_set (dict_set out ''x'' (PFloat x)) ''y'' (PFloat y))"
  by (simp add: safe_action_def validated_point_def map_of_dict_set)

lemma ask_loop_accepted_safe:
  "ask_loop e ext m st = (Accepted out, st') \<Longrightarrow> safe_action e out"
proof (induction m arbitrary: st)
  case 0
  then show ?case by simp
next
  case (Suc m)
  note run = Suc.prems
  obtain o1 w' where ask: "ask_next_action e (trim_history (history st) 6) (world st) = (o1, w')"
    by (cases "ask_next_action e (trim_history (history st) 6) (world st)")
  show ?case
  proof (cases "action_of o1 ''NOOP''")
    case (Inl err)
    have "ask_loop e ext (Suc m) st =
        (Failed err, st\<lparr>world := w', trace := trace st @ [Ask (trim_history (history st) 6)]\<rparr>)"
      by (rule ask_loop_action_fails [OF ask Inl])
    with run show ?thesis
      by (simp del: ask_loop.simps)
  next
    case (Inr a)
    show ?thesis
    proof (cases "a = ''BITTI''")
      case True
      have "ask_loop e ext (Suc m) st =
          (Bitti, st\<lparr>world := w', trace := trace st @ [Ask (trim_history (history st) 6)]\<rparr>)"
        by (rule ask_loop_bitti [OF ask Inr [unfolded True]])
      with run show ?thesis
        by (simp del: ask_loop.simps)
    next
      case False
      show ?thesis
      proof (cases "a \<in> set pointer_kinds")
        case outside: False
        have "ask_loop e ext (Suc m) st =
            (Accepted o1, st\<lparr>world := w', trace := trace st @ [Ask (trim_history (history st) 6)]\<rparr>)"
          by (rule ask_loop_other [OF ask Inr outside False])
        with run have "out = o1"
          by (simp del: ask_loop.simps)
        then show ?thesis
          using not_pointer_either_default [OF Inr outside] by (simp add: safe_action_def)
      next
        case True
        show ?thesis
        proof (cases "ext (float_str e) o1")
          case (Inl err)
          have "ask_loop e ext (Suc m) st =
              (Failed err, st\<lparr>world := w', trace := trace st @ [Ask (trim_history (history st) 6)]\<rparr>)"
            by (rule ask_loop_extract_fails [where ext = ext, OF ask Inr True Inl])
          with run show ?thesis
            by (simp del: ask_loop.simps)
        next
          case xy: (Inr p)
          obtain x y where p: "p = (x, y)"
            by (cases p)
          show ?thesis
          proof (cases "validate_xy e x y")
            case valid: True
            have "ask_loop e ext (Suc m) st =
                (Accepted (dict_set (dict_set o1 ''x'' (PFloat x)) ''y'' (PFloat y)),
                 st\<lparr>world := w', trace := trace st @ [Ask (trim_history (history st) 6)]\<rparr>)"
              by (rule ask_loop_valid [where ext = ext, OF ask Inr True xy [unfolded p] valid])
            with run have "out = dict_set (dict_set o1 ''x'' (PFloat x)) ''y'' (PFloat y)"
              by (simp del: ask_loop.simps)
            then show ?thesis
              using validated_after_set [OF valid] by simp
          next
            case invalid: False
            have "ask_loop e ext (Suc m) st =
                ask_loop e ext m (st\<lparr>world := w',
                     trace := trace st @ [Ask (trim_history (history st) 6)],
                     history := history st @ [invalid_coords o1]\<rparr>)"
              by (rule ask_loop_invalid [where ext = ext, OF ask Inr True xy [unfolded p] invalid])
            with run have "ask_loop e ext m (st\<lparr>world := w',
                     trace := trace st @ [Ask (trim_history (history st) 6)],
                     history := history st @ [invalid_coords o1]\<rparr>) = (Accepted out, st')"
              by (simp del: ask_loop.simps)
            then show ?thesis
              by (rule Suc.IH)
          qed
        qed
      qed
    qed
  qed
qed

lemma loop_body_Continue_safe:
  assumes "loop_body e ext st = Continue st'"
  obtains out where "executed (trace st') = executed (trace st) @ [out]" and "safe_action e out"
proof -
  from loop_body_Continue_effect [OF assms] obtain out st2 where
    ex: "executed (trace st') = executed (trace st) @ [out]"
    and al: "ask_loop e ext (nat (MODEL_RETRY e + 1))
                (st\<lparr>world := capture e (world st), trace := trace st @ [Capture]\<rparr>)
              = (Accepted out, st2)"
    by (elim exE conjE) blast
  from al have "safe_action e out"
    by (rule ask_loop_accepted_safe)
  with ex show ?thesis
    by (rule that)
qed

lemma run_loop_executed_safe:
  assumes "list_all (safe_action e) (executed (trace st))"
  shows "list_all (safe_action e) (executed (trace (snd (run_loop e ext st))))"
  using assms
proof (induction e ext st rule: run_loop.induct)
  case (1 e ext st)
  show ?case
  proof (cases "loop_body e ext st")
    case (Stop r st')
    have eq: "run_loop e ext st = (r, st')"
      by (rule run_loop_Stop [OF Stop])
    have "executed (trace st') = executed (trace st)"
      by (rule loop_body_Stop_effect(1) [OF Stop])
    then show ?thesis
      unfolding eq using "1.prems" by simp
  next
    case (Continue st')
    from Continue obtain out where
      ex: "executed (trace st') = executed (trace st) @ [out]" and safe: "safe_action e out"
      by (rule loop_body_Continue_safe)
    have safe': "list_all (safe_action e) (executed (trace st'))"
      unfolding ex using "1.prems" safe by simp
    show ?thesis
    proof (cases "step st' > MAX_STEPS e")
      case True
      then have eq: "run_loop e ext st = (Returned ''DONE(max-steps)'', st')"
        using run_loop_Continue [OF Continue] by simp
      show ?thesis
        unfolding eq using safe' by simp
    next
      case False
      then have eq: "run_loop e ext st = run_loop e ext st'"
        using run_loop_Continue [OF Continue] by simp
      show ?thesis
        unfolding eq by (rule "1.IH" [OF Continue False safe'])
    qed
  qed
qed

lemma pos_to_norm_range:
  assumes "pos_to_norm v x y = Some (nx, ny)"
  shows "0 \<le> nx \<and> nx < 1 \<and> 0 \<le> ny \<and> ny < 1"
proof -
  from assms obtain dx dy dw dh where r: "draw_rect v = Some (dx, dy, dw, dh)"
    by (cases "draw_rect v") (auto simp: pos_to_norm_def)
  from assms r have g: "0 < dw" "0 < dh" "dx \<le> x" "x < dx + dw" "dy \<le> y" "y < dy + dh"
    and nx: "nx = real_of_int (x - dx) / real_of_int dw"
    and ny: "ny = real_of_int (y - dy) / real_of_int dh"
    by (auto simp: pos_to_norm_def Let_def split: if_splits)
  show ?thesis
    unfolding nx ny using g by simp
qed

lemma handle_event_in_range: "list_all call_in_range (snd (handle_event v ev))"
proof (cases ev)
  case (Press ex ey b)
  then show ?thesis
    using pos_to_norm_range [of v "py_int ex" "py_int ey"]
    by (auto simp: mousePressEvent_def in_unit_square_def split: option.splits)
next
  case (Move ex ey now)
  then show ?thesis
    using pos_to_norm_range [of v "py_int ex" "py_int ey"]
    by (auto simp: mouseMoveEvent_def in_unit_square_def split: option.splits)
next
  case Release
  then show ?thesis
    by (auto simp: mouseReleaseEvent_def split: option.splits)
qed

lemma deliver_in_range: "list_all call_in_range (calls_of (deliver v evs))"
  by (induction evs arbitrary: v) (simp_all add: calls_of_def handle_event_in_range)

lemma safe_action_spec:
  assumes "validate_xy e = validate_xy_spec" and "safe_action e out" and "is_pointer_action out"
  shows "\<exists>x y. map_of out ''x'' = Some (PFloat x) \<and> map_of out ''y'' = Some (PFloat y)
               \<and> in_unit_square x y"
proof -
  from assms(2,3) have v: "validated_point e out"
    by (simp add: safe_action_def)
  then obtain x where x: "map_of out ''x'' = Some (PFloat x)"
    by (auto simp: validated_point_def split: option.splits pyval.splits)
  with v obtain y where y: "map_of out ''y'' = Some (PFloat y)"
    by (auto simp: validated_point_def split: option.splits pyval.splits)
  from v x y have "validate_xy e x y"
    by (simp add: validated_point_def)
  then have "in_unit_square x y"
    using assms(1) by (simp add: validate_xy_spec_def in_unit_square_def)
  with x y show ?thesis
    by blast
qed

lemma unmapped_event_no_call:
  assumes "pos_to_norm v (py_int ex) (py_int ey) = None"
  shows "snd (handle_event v (Press ex ey b)) = []" and "snd (handle_event v (Move ex ey now)) = []"
  using assms by (simp_all add: mousePressEvent_def mouseMoveEvent_def)

text \<open>
  Claim C5: every normalised point handed to the environment lies in
  \<open>[0,1] \<times> [0,1]\<close>. With the validator of the spec, every action of a pointer kind that
  a run hands to \<open>execute_action\<close> carries floats \<open>x\<close> and \<open>y\<close> in the unit
  square, in both copies of the loop (an answer whose point the validator rejects is
  never executed); every \<open>mouse_move_norm\<close> and \<open>drag_to_norm\<close> call the pointer
  handlers make carries a point of the unit square, whatever the events; and a press or a
  move that the viewport does not map makes no call at all.
\<close>

theorem actuation_points_in_unit_square:
  assumes "validate_xy e = validate_xy_spec"
  shows "(\<forall>out \<in> set (executed (trace (snd (run_single_command e w)))).
            is_pointer_action out \<longrightarrow>
              (\<exists>x y. map_of out ''x'' = Some (PFloat x) \<and> map_of out ''y'' = Some (PFloat y)
                     \<and> in_unit_square x y))
       \<and> (\<forall>out \<in> set (executed (trace (snd (run_single_command_mc e w)))).
            is_pointer_action out \<longrightarrow>
              (\<exists>x y. map_of out ''x'' = Some (PFloat x) \<and> map_of out ''y'' = Some (PFloat y)
                     \<and> in_unit_square x y))
       \<and> list_all call_in_range (calls_of (deliver v evs))
       \<and> (pos_to_norm v (py_int ex) (py_int ey) = None
            \<longrightarrow> snd (handle_event v (Press ex ey b)) = [] \<and> snd (handle_event v (Move ex ey now)) = [])"
proof (intro conjI ballI impI)
  fix out
  assume "out \<in> set (executed (trace (snd (run_single_command e w))))"
    and p: "is_pointer_action out"
  moreover have "list_all (safe_action e) (executed (trace (snd (run_single_command e w))))"
    unfolding run_single_command_def by (rule run_loop_executed_safe) simp
  ultimately have "safe_action e out"
    by (simp add: list_all_iff)
  with assms show "\<exists>x y. map_of out ''x'' = Some (PFloat x) \<and> map_of out ''y'' = Some (PFloat y)
                     \<and> in_unit_square x y"
    using p by (rule safe_action_spec)
next
  fix out
  assume "out \<in> set (executed (trace (snd (run_single_command_mc e w))))"
    and p: "is_pointer_action out"
  moreover have "list_all (safe_action e) (executed (trace (snd (run_single_command_mc e w))))"
    unfolding run_single_command_mc_def by (rule run_loop_executed_safe) simp
  ultimately have "safe_action e out"
    by (simp add: list_all_iff)
  with assms show "\<exists>x y. map_of out ''x'' = Some (PFloat x) \<and> map_of out ''y'' = Some (PFloat y)
                     \<and> in_unit_square x y"
    using p by (rule safe_action_spec)
next
  show "list_all call_in_range (calls_of (deliver v evs))"
    by (rule deliver_in_range)
next
  assume "pos_to_norm v (py_int ex) (py_int ey) = None"
  then show "snd (handle_event v (Press ex ey b)) = []"
    by (rule unmapped_event_no_call(1))
next
  assume "pos_to_norm v (py_int ex) (py_int ey) = None"
  then show "snd (handle_event v (Move ex ey now)) = []"
    by (rule unmapped_event_no_call(2))
qed

theorem actuation_points_in_unit_square_witness:
  "validate_xy (scripted 2 1) = validate_xy_spec
   \<and> executed (trace (snd (run_single_command (scripted 2 1)
          [[(''action'', PStr ''click''), (''x'', PInt 1), (''y'', PInt 0)]])))
       = [[(''action'', PStr ''click''), (''x'', PFloat 1), (''y'', PFloat 0)]]
   \<and> is_pointer_action [(''action'', PStr ''click''), (''x'', PFloat 1), (''y'', PFloat 0)]
   \<and> (\<exists>x y. map_of [(''action'', PStr ''click''), (''x'', PFloat 1), (''y'', PFloat 0)] ''x''
                = Some (PFloat x)
            \<and> map_of [(''action'', PStr ''click''), (''x'', PFloat 1), (''y'', PFloat 0)] ''y''
                = Some (PFloat y)
            \<and> in_unit_square x y)
   \<and> list_all call_in_range
        (calls_of (deliver \<lparr>pm = Some (), draw_rect = Some (10, 20, 100, 50), input_enabled = True,
                            pressed_btn = None, last_move_ts = 0\<rparr>
           [Press 20 30 LeftButton, Release]))"
proof -
  let ?e = "scripted 2 1"
  let ?good = "[(''action'', PStr ''click''), (''x'', PInt 1), (''y'', PInt 0)]"
  let ?done = "[(''action'', PStr ''click''), (''x'', PFloat 1), (''y'', PFloat 0)]"
  let ?st = "\<lparr>world = [?good], history = [], step = 1, trace = []\<rparr>"
  let ?st1 = "?st\<lparr>world := capture ?e (world ?st), trace := trace ?st @ [Capture]\<rparr>"
  let ?v = "\<lparr>pm = Some (), draw_rect = Some (10, 20, 100, 50), input_enabled = True,
             pressed_btn = None, last_move_ts = 0\<rparr> :: unit vmview"
  have val: "validate_xy ?e = validate_xy_spec"
    by (simp add: scripted_def)
  have q: "ask_next_action ?e (trim_history (history ?st1) 6) (world ?st1) = (?good, [])"
    by (simp add: scripted_def)
  have act: "action_of ?good ''NOOP'' = Inr ''CLICK''"
    by code_simp
  have ptr: "''CLICK'' \<in> set pointer_kinds"
    by (simp add: pointer_kinds_def)
  have xy: "extract_xy (float_str ?e) ?good = Inr (1, 0)"
    by (simp add: extract_xy_def dict_get_def float_pair_def float_overflow_at_def)
  have ok: "validate_xy ?e 1 0"
    by (simp add: scripted_def validate_xy_spec_def)
  have n: "nat (MODEL_RETRY ?e + 1) = Suc 2"
    by (simp add: scripted_def)
  have set: "dict_set (dict_set ?good ''x'' (PFloat 1)) ''y'' (PFloat 0) = ?done"
    by simp
  have al: "ask_loop ?e extract_xy (nat (MODEL_RETRY ?e + 1)) ?st1 =
      (Accepted ?done,
       ?st1\<lparr>world := [], trace := trace ?st1 @ [Ask (trim_history (history ?st1) 6)]\<rparr>)"
    unfolding n
    using ask_loop_valid [where ext = extract_xy, OF q act ptr xy ok] unfolding set .
  have up: "py_upper ''click'' = ''CLICK''"
    by code_simp
  have act2: "action_of ?done [] = Inr ''CLICK''"
    by (simp add: action_of_def dict_get_def up)
  have pv: "preview (float_str ?e) ?done 1 = Inr [Preview 1 1 0]"
    by (simp add: preview_def)
  have g: "\<not> stop_is_set ?e (world ?st)" "\<not> should_stop_on_repeat ?e h ?done" for h
    by (simp_all add: scripted_def)
  have body: "loop_body ?e extract_xy ?st =
      Continue \<lparr>world = execute_action ?e ?done [], history = [?done], step = 2,
                trace = [Capture, Ask [], Preview 1 1 0, Execute ?done]\<rparr>"
    unfolding loop_body_def Let_def al
    using g by (simp add: act2 ptr pv trim_history_def)
  have "run_loop ?e extract_xy ?st =
      (Returned ''DONE(max-steps)'',
       \<lparr>world = execute_action ?e ?done [], history = [?done], step = 2,
        trace = [Capture, Ask [], Preview 1 1 0, Execute ?done]\<rparr>)"
    using run_loop_Continue [OF body] by (simp add: scripted_def)
  then have run: "executed (trace (snd (run_single_command ?e [?good]))) = [?done]"
    by (simp add: run_single_command_def)
  have isp: "is_pointer_action ?done"
    by (simp add: is_pointer_action_def act2 ptr)
  note inst = actuation_points_in_unit_square [OF val, of "[?good]" ?v "[Press 20 30 LeftButton, Release]"]
  from inst have "\<forall>out \<in> set (executed (trace (snd (run_single_command ?e [?good])))).
            is_pointer_action out \<longrightarrow>
              (\<exists>x y. map_of out ''x'' = Some (PFloat x) \<and> map_of out ''y'' = Some (PFloat y)
                     \<and> in_unit_square x y)"
    by (rule conjunct1)
  then have pt: "\<exists>x y. map_of ?done ''x'' = Some (PFloat x) \<and> map_of ?done ''y'' = Some (PFloat y)
                     \<and> in_unit_square x y"
    unfolding run using isp by simp
  have calls: "list_all call_in_range (calls_of (deliver ?v [Press 20 30 LeftButton, Release]))"
    by (rule conjunct1 [OF conjunct2 [OF conjunct2 [OF inst]]])
  from val run isp pt calls show ?thesis
    by (intro conjI)
qed

end
